theory Spec2Isabelle
  imports Main "HOL-Library.Word"
begin

unbundle bit_operations_syntax

section \<open>Platform types\<close>

text \<open>
  The file is compiled for Windows only. \<open>DWORD\<close> is an unsigned 32-bit integer; handles,
  module handles and addresses are pointer-sized (64 bits in the \<open>_WIN64\<close> build modelled
  here; no result below depends on the width). \<open>NULL\<close> is the all-zero pointer and
  \<open>INVALID_HANDLE_VALUE\<close> is \<open>(HANDLE)-1\<close>.
\<close>

type_synonym DWORD = "32 word"
type_synonym HANDLE = "64 word"
type_synonym HMODULE = "64 word"
type_synonym address = "64 word"
type_synonym byte = "8 word"

abbreviation NULL :: "64 word" where
  "NULL \<equiv> 0"

definition INVALID_HANDLE_VALUE :: HANDLE where
  "INVALID_HANDLE_VALUE = - 1"

definition ERROR_BROKEN_PIPE :: DWORD where
  "ERROR_BROKEN_PIPE = 109"

section \<open>Error text: GetErrorAsString, ReportError, GetLastErrorAsString, ReportLastError\<close>

text \<open>
  \<open>raw_ostream << DWORD\<close> prints the number in decimal.
\<close>

definition digit_char :: "nat \<Rightarrow> char" where
  "digit_char d = char_of (48 + d)"

function decimal :: "nat \<Rightarrow> string" where
  "decimal n = (if n < 10 then [digit_char n] else decimal (n div 10) @ [digit_char (n mod 10)])"
  by pat_completeness auto
termination
  by (relation "measure id") auto

declare decimal.simps [simp del]

text \<open>
  \<open>StringRef::rtrim()\<close> drops the trailing characters among space, tab, newline, vertical
  tab, form feed and carriage return.
\<close>

definition is_space :: "char \<Rightarrow> bool" where
  "is_space c = (c \<in> set [CHR '' '', CHR 0x09, CHR 0x0A, CHR 0x0B, CHR 0x0C, CHR 0x0D])"

definition rtrim :: "string \<Rightarrow> string" where
  "rtrim s = rev (dropWhile is_space (rev s))"

text \<open>
  \<open>GetErrorAsString(Err, ErrStr, Prefix)\<close>: a \<open>raw_string_ostream\<close> appends to \<open>ErrStr\<close>.
  An optional prefix is followed by \<open>": returned "\<close>, the code and a space. The parameter
  \<open>FormatMessage\<close> is the system's message table: \<open>Some m\<close> with \<open>m \<noteq> []\<close> when
  \<open>::FormatMessage\<close> returns a non-zero size and a buffer, and then the message is appended
  and the whole string right-trimmed; otherwise the stream's destructor flushes what was
  written.
\<close>

type_synonym message_table = "DWORD \<Rightarrow> string option"

definition GetErrorAsString :: "message_table \<Rightarrow> DWORD \<Rightarrow> string \<Rightarrow> string option \<Rightarrow> string" where
  "GetErrorAsString FormatMessage Err ErrStr Prefix =
     (let Strm = ErrStr @ (case Prefix of
                             None \<Rightarrow> []
                           | Some P \<Rightarrow> P @ '': returned '' @ decimal (unat Err) @ '' '')
      in case FormatMessage Err of
           None \<Rightarrow> Strm
         | Some Message \<Rightarrow> if Message \<noteq> [] then rtrim (Strm @ Message) else Strm)"

text \<open>
  \<open>ReportError(Err, Prefix)\<close> builds \<open>Message\<close> with \<open>GetErrorAsString\<close> and then writes
  \<open>Err\<close>, the number, and a newline to \<open>llvm::errs()\<close>. The result is the text written.
\<close>

definition ReportError :: "message_table \<Rightarrow> DWORD \<Rightarrow> string option \<Rightarrow> string" where
  "ReportError FormatMessage Err Prefix =
     (let Message = GetErrorAsString FormatMessage Err [] Prefix
      in decimal (unat Err) @ [CHR 0x0A])"

text \<open>
  \<open>GetLastErrorAsString(ErrStr, Prefix)\<close> and \<open>ReportLastError(Prefix)\<close> act only when
  \<open>::GetLastError()\<close> is non-zero; \<open>LastError\<close> is that value. The first returns the new
  \<open>ErrStr\<close>, the second the text written to \<open>llvm::errs()\<close>; the boolean is the C++ result.
\<close>

definition GetLastErrorAsString :: "message_table \<Rightarrow> DWORD \<Rightarrow> string \<Rightarrow> string option \<Rightarrow> bool \<times> string" where
  "GetLastErrorAsString FormatMessage LastError ErrStr Prefix =
     (if LastError \<noteq> 0 then (True, GetErrorAsString FormatMessage LastError ErrStr Prefix)
      else (False, ErrStr))"

definition ReportLastError :: "message_table \<Rightarrow> DWORD \<Rightarrow> string option \<Rightarrow> bool \<times> string" where
  "ReportLastError FormatMessage LastError Prefix =
     (if LastError \<noteq> 0 then (True, ReportError FormatMessage LastError Prefix)
      else (False, []))"

section \<open>DLOpen\<close>

text \<open>
  \<open>LoadLibrary\<close> is the loader's answer for the path: the module handle, or \<open>NULL\<close> together
  with the last-error code. \<open>Err\<close> is the optional out-parameter (\<open>None\<close> for a null
  pointer); the result is the handle and the out-parameter's new contents.
\<close>

definition DLOpen :: "message_table \<Rightarrow> (string \<Rightarrow> HMODULE \<times> DWORD) \<Rightarrow> string \<Rightarrow> string option \<Rightarrow> HMODULE \<times> string option" where
  "DLOpen FormatMessage LoadLibrary Path Err =
     (case LoadLibrary Path of (dyLibHandle, LastError) \<Rightarrow>
        (dyLibHandle,
         if dyLibHandle = NULL
         then map_option (\<lambda>E. snd (GetLastErrorAsString FormatMessage LastError E (Some ''LoadLibrary''))) Err
         else Err))"

section \<open>llvm::SmallVector\<close>

text \<open>
  The vector's elements and its capacity, counted in elements. \<open>resize\<close> truncates, or
  appends value-initialised (zero) elements; when the new size exceeds the capacity, LLVM's
  \<open>grow_pod\<close> allocates \<open>2 * capacity_in_bytes + sizeof(T)\<close> bytes, or the requested size if
  that is larger, which in elements is the maximum of \<open>2 * capacity + 1\<close> and the size.
\<close>

record 'a SmallVector =
  elems :: "'a list"
  capacity :: nat

definition grow_pod :: "nat \<Rightarrow> nat \<Rightarrow> nat" where
  "grow_pod cap MinSize = max (2 * cap + 1) MinSize"

definition resize :: "nat \<Rightarrow> ('a::zero) SmallVector \<Rightarrow> 'a SmallVector" where
  "resize N v =
     (if N \<le> length (elems v) then v\<lparr>elems := take N (elems v)\<rparr>
      else \<lparr>elems = elems v @ replicate (N - length (elems v)) 0,
            capacity = (if capacity v < N then grow_pod (capacity v) N else capacity v)\<rparr>)"

text \<open>
  A system call that fills a buffer writes \<open>src\<close> over the first elements of the vector's
  storage: \<open>stored src buf\<close> is the vector's contents afterwards. What is written past the
  vector's size (but inside its capacity) is not an element and is never read.
\<close>

definition stored :: "'a list \<Rightarrow> 'a list \<Rightarrow> 'a list" where
  "stored src buf = take (length buf) src @ drop (length src) buf"

section \<open>DLSym\<close>

text \<open>
  The process as \<open>DLSym\<close> sees it. \<open>first_enum\<close> and \<open>second_enum\<close> are the module lists, in
  the order \<open>EnumProcessModulesEx\<close> returns them, at the moments of the first and of the
  second call (\<open>None\<close> when that call fails; the lists may differ, modules being loaded and
  unloaded in between). \<open>enum_error\<close> is the last-error code after a failed call,
  \<open>GetProcAddress\<close> the export tables (\<open>NULL\<close> when the module does not export the name).
\<close>

record process =
  first_enum :: "HMODULE list option"
  second_enum :: "HMODULE list option"
  enum_error :: DWORD
  GetProcAddress :: "HMODULE \<Rightarrow> string \<Rightarrow> address"

text \<open>The calls \<open>DLSym\<close> makes to the system, in order, \<open>Enumerate\<close> with the buffer's bytes.\<close>

datatype os_call = Enumerate nat | Probe HMODULE

definition sizeof_HMODULE :: nat where
  "sizeof_HMODULE = 8"

text \<open>
  \<open>EnumProcessModulesEx(process, buffer, cb, &Bytes, Flags)\<close> stores as many handles as fit in
  \<open>cb\<close> bytes at the start of the buffer and sets \<open>Bytes\<close> to the size needed for all of them
  (module counts stay far below \<open>2 ^ 29\<close>, so the \<open>DWORD\<close> does not wrap). The result is the
  vector's contents after the call and \<open>Bytes\<close>, or \<open>None\<close> when the call returns zero.
\<close>

definition EnumProcessModulesEx :: "HMODULE list option \<Rightarrow> HMODULE list \<Rightarrow> nat \<Rightarrow> (HMODULE list \<times> nat) option" where
  "EnumProcessModulesEx loaded buf cb =
     (case loaded of
        None \<Rightarrow> None
      | Some ms \<Rightarrow> Some (stored (take (cb div sizeof_HMODULE) ms) buf, sizeof_HMODULE * length ms))"

text \<open>\<open>llvm::SmallVector<HMODULE, 128>\<close> starts empty with 128 inline elements.\<close>

definition inline_Modules :: "HMODULE SmallVector" where
  "inline_Modules = \<lparr>elems = [], capacity = 128\<rparr>"

text \<open>
  The first loop: \<open>for (It = Modules.rbegin(); It < Modules.rend(); ++It)\<close>, returning at the
  first non-null \<open>GetProcAddress\<close>. The argument is the sequence in iteration order; the
  second component lists the calls made.
\<close>

fun probe_all :: "(HMODULE \<Rightarrow> string \<Rightarrow> address) \<Rightarrow> string \<Rightarrow> HMODULE list \<Rightarrow> address \<times> os_call list" where
  "probe_all gpa Name [] = (NULL, [])"
| "probe_all gpa Name (h # hs) =
     (let Addr = gpa h Name
      in if Addr \<noteq> NULL then (Addr, [Probe h])
         else (case probe_all gpa Name hs of (a, calls) \<Rightarrow> (a, Probe h # calls)))"

text \<open>
  The second loop: \<open>for (DWORD i = NumNeeded-1; i > NumFirst; --i)\<close> over \<open>Modules[i]\<close>.
\<close>

function probe_down :: "(HMODULE \<Rightarrow> string \<Rightarrow> address) \<Rightarrow> string \<Rightarrow> HMODULE list \<Rightarrow> nat \<Rightarrow> nat \<Rightarrow> address \<times> os_call list" where
  "probe_down gpa Name Modules NumFirst i =
     (if i > NumFirst then
        (let Addr = gpa (Modules ! i) Name
         in if Addr \<noteq> NULL then (Addr, [Probe (Modules ! i)])
            else (case probe_down gpa Name Modules NumFirst (i - 1) of
                    (a, calls) \<Rightarrow> (a, Probe (Modules ! i) # calls)))
      else (NULL, []))"
  by pat_completeness auto
termination
  by (relation "measure (\<lambda>(gpa, Name, Modules, NumFirst, i). i)") auto

declare probe_down.simps [simp del]

text \<open>
  \<open>DLSym(Name, Err)\<close>. The result is the address returned (\<open>NULL\<close> for \<open>nullptr\<close>), the new
  contents of the optional out-parameter \<open>Err\<close>, and the system calls made.
\<close>

definition DLSym :: "message_table \<Rightarrow> process \<Rightarrow> string \<Rightarrow> string option \<Rightarrow> address \<times> string option \<times> os_call list" where
  "DLSym FormatMessage P Name Err =
     (let Modules = resize (capacity inline_Modules) inline_Modules;
          cb = capacity Modules * sizeof_HMODULE;
          failed = map_option (\<lambda>E. snd (GetLastErrorAsString FormatMessage (enum_error P) E
                                           (Some ''EnumProcessModulesEx''))) Err
      in case EnumProcessModulesEx (first_enum P) (elems Modules) cb of
           None \<Rightarrow> (NULL, failed, [Enumerate cb])
         | Some (filled, Bytes) \<Rightarrow>
             let Modules = Modules\<lparr>elems := filled\<rparr>;
                 NumNeeded = Bytes div sizeof_HMODULE;
                 NumFirst = length (elems Modules);
                 Modules = (if NumNeeded < NumFirst then resize NumNeeded Modules else Modules)
             in case probe_all (GetProcAddress P) Name (rev (elems Modules)) of (Addr, calls) \<Rightarrow>
                  if Addr \<noteq> NULL then (Addr, Err, Enumerate cb # calls)
                  else if NumNeeded > NumFirst then
                    (let Modules = resize NumNeeded Modules;
                         cb2 = capacity Modules * sizeof_HMODULE
                     in case EnumProcessModulesEx (second_enum P) (elems Modules) cb2 of
                          None \<Rightarrow> (NULL, failed, Enumerate cb # calls @ [Enumerate cb2])
                        | Some (refilled, Bytes2) \<Rightarrow>
                            (case probe_down (GetProcAddress P) Name refilled NumFirst (NumNeeded - 1) of
                               (Addr, calls2) \<Rightarrow>
                                 (Addr, Err, Enumerate cb # calls @ [Enumerate cb2] @ calls2)))
                  else (NULL, Err, Enumerate cb # calls))"

text \<open>
  Names for the parts of \<open>DLSym\<close>'s result: the text a failed enumeration leaves in \<open>Err\<close>;
  the handles the second loop visits, in the order visited, when the first call reported
  the modules \<open>ms\<close> and the second call found \<open>ms2\<close> (elements 129 and up of the vector, which
  holds null handles where the second list is shorter); the handles \<open>GetProcAddress\<close> can be
  asked about; and the test for an enumeration call.
\<close>

definition failed_text :: "message_table \<Rightarrow> process \<Rightarrow> string option \<Rightarrow> string option" where
  "failed_text fm P Err = map_option (\<lambda>E. snd (GetLastErrorAsString fm (enum_error P) E (Some ''EnumProcessModulesEx''))) Err"

definition second_capture :: "HMODULE list \<Rightarrow> HMODULE list \<Rightarrow> HMODULE list" where
  "second_capture ms ms2 = rev (take (length ms - 129) (drop 129 (take (length ms) ms2 @ replicate (length ms - length ms2) NULL)))"

definition probed_handles :: "process \<Rightarrow> HMODULE list" where
  "probed_handles P =
     (case first_enum P of None \<Rightarrow> [] | Some ms \<Rightarrow> ms)
     @ (case second_enum P of None \<Rightarrow> [] | Some ms \<Rightarrow> ms) @ [NULL]"

fun is_enumerate :: "os_call \<Rightarrow> bool" where
  "is_enumerate (Enumerate cb) = True"
| "is_enumerate (Probe h) = False"

text \<open>
  Processes for the examples: \<open>n\<close> modules with the handles \<open>1\<close> to \<open>n\<close> in load order, none
  loaded or unloaded during the call, exporting the name \<open>S\<close> at the addresses of \<open>table\<close>;
  and a system without message texts.
\<close>

definition many_modules :: "nat \<Rightarrow> HMODULE list" where
  "many_modules n = map word_of_nat [1..<Suc n]"

definition exporting :: "(HMODULE \<times> address) list \<Rightarrow> HMODULE \<Rightarrow> string \<Rightarrow> address" where
  "exporting table h Name = (if Name = ''S'' then (case map_of table h of None \<Rightarrow> NULL | Some a \<Rightarrow> a) else NULL)"

definition loaded :: "nat \<Rightarrow> (HMODULE \<times> address) list \<Rightarrow> process" where
  "loaded n table = \<lparr>first_enum = Some (many_modules n), second_enum = Some (many_modules n),
       enum_error = 0, GetProcAddress = exporting table\<rparr>"

definition no_messages :: message_table where
  "no_messages e = None"

section \<open>Handles and other resources\<close>

text \<open>
  \<open>Popen\<close> and \<open>IsDLL\<close> are modelled with the sequence of system calls they make that create,
  release or use a resource. An acquisition is recorded when the call succeeded, a
  \<open>CloseHandle\<close> or \<open>UnmapViewOfFile\<close> whenever it is called.
\<close>

datatype event =
    Pipe_created HANDLE HANDLE
  | Duplicated HANDLE HANDLE
  | Spawned HANDLE HANDLE
  | File_opened HANDLE
  | Mapping_created HANDLE
  | View_mapped address
  | Closed HANDLE
  | View_unmapped address
  | Read_from HANDLE

datatype resource = Handle HANDLE | View address

fun acquired :: "event \<Rightarrow> resource list" where
  "acquired (Pipe_created r w) = [Handle r, Handle w]"
| "acquired (Duplicated src h) = [Handle h]"
| "acquired (Spawned p t) = [Handle p, Handle t]"
| "acquired (File_opened h) = [Handle h]"
| "acquired (Mapping_created h) = [Handle h]"
| "acquired (View_mapped a) = [View a]"
| "acquired (Closed h) = []"
| "acquired (View_unmapped a) = []"
| "acquired (Read_from h) = []"

fun released :: "event \<Rightarrow> resource list" where
  "released (Closed h) = [Handle h]"
| "released (View_unmapped a) = [View a]"
| "released e = []"

text \<open>
  The resources held after a sequence of events, starting from those in \<open>held\<close>; each release
  removes one acquisition of that resource, if there is one.
\<close>

fun held_after :: "event list \<Rightarrow> resource list \<Rightarrow> resource list" where
  "held_after [] held = held"
| "held_after (e # es) held = held_after es (foldr remove1 (released e) (acquired e @ held))"

definition leaked :: "event list \<Rightarrow> resource list" where
  "leaked es = held_after es []"

text \<open>
  No read is issued before the first \<open>CloseHandle(W)\<close>.
\<close>

fun closed_before_reading :: "HANDLE \<Rightarrow> event list \<Rightarrow> bool" where
  "closed_before_reading W [] = True"
| "closed_before_reading W (Closed h # es) = (h = W \<or> closed_before_reading W es)"
| "closed_before_reading W (Read_from h # es) = False"
| "closed_before_reading W (e # es) = closed_before_reading W es"

fun is_read :: "event \<Rightarrow> bool" where
  "is_read (Read_from h) = True"
| "is_read e = False"

section \<open>Popen\<close>

text \<open>
  What the parent's \<open>ReadFile\<close> calls meet on the pipe, in order: data that is available (a
  write of the child; an empty one is a zero-byte write), or a failure with its error code.
  When nothing is left, the child has exited and every write end is closed: the read fails
  with \<open>ERROR_BROKEN_PIPE\<close>. A child that never exits is not a finite sequence and is outside
  this model.
\<close>

datatype pipe_item = Data "byte list" | Read_error DWORD

text \<open>
  \<open>ReadFile(h, buffer, n, &dwRead, NULL)\<close> on a pipe returns at most \<open>n\<close> of the bytes
  available and leaves the others in the pipe. The result is \<open>Result\<close>, the bytes stored
  (\<open>dwRead\<close> is their number, zero on failure), \<open>GetLastError()\<close> afterwards (a call that
  succeeds leaves the value \<open>LastErr\<close> as it was) and the rest of the pipe.
\<close>

fun ReadFile :: "pipe_item list \<Rightarrow> nat \<Rightarrow> DWORD \<Rightarrow> bool \<times> byte list \<times> DWORD \<times> pipe_item list" where
  "ReadFile [] n LastErr = (False, [], ERROR_BROKEN_PIPE, [])"
| "ReadFile (Read_error e # rest) n LastErr = (False, [], e, rest)"
| "ReadFile (Data bs # rest) n LastErr =
     (True, take n bs, LastErr, if length bs \<le> n then rest else Data (drop n bs) # rest)"

fun pipe_size :: "pipe_item list \<Rightarrow> nat" where
  "pipe_size [] = 0"
| "pipe_size (Data bs # rest) = Suc (length bs) + pipe_size rest"
| "pipe_size (Read_error e # rest) = Suc (pipe_size rest)"

lemma ReadFile_consumes:
  "ReadFile pipe n LastErr = (True, data, LastErr', pipe') \<Longrightarrow> data \<noteq> [] \<Longrightarrow> pipe_size pipe' < pipe_size pipe"
  by (induction pipe n LastErr rule: ReadFile.induct) (auto split: if_splits)

text \<open>
  The system as \<open>Popen\<close> sees it. \<open>CreatePipe\<close> gives the read and the write end, or fails;
  \<open>DuplicateHandle\<close> gives the duplicate of a handle or the error code; \<open>CreateProcessA\<close> the
  process and thread handles of the child or the error code; \<open>close_fails\<close> the error code
  of a \<open>::CloseHandle\<close> that returns zero; \<open>pipe_contents\<close> what the reads will meet; \<open>entry_error\<close>
  the thread's last-error value when \<open>Popen\<close> is entered.
\<close>

record popen_os =
  CreatePipe :: "(HANDLE \<times> HANDLE) option"
  DuplicateHandle :: "HANDLE \<Rightarrow> DWORD + HANDLE"
  CreateProcessA :: "string \<Rightarrow> DWORD + HANDLE \<times> HANDLE"
  close_fails :: "HANDLE \<Rightarrow> DWORD option"
  pipe_contents :: "pipe_item list"
  entry_error :: DWORD

text \<open>
  What a call leaves behind: the text written to \<open>llvm::errs()\<close> and the events, and for
  \<open>Popen\<close> the boolean returned and the caller's buffer.
\<close>

record effects =
  errs :: string
  events :: "event list"

record popen_result = effects +
  returned :: bool
  buffer :: "byte SmallVector"

text \<open>
  The file's own \<open>static void CloseHandle(HANDLE H)\<close>: reports when \<open>::CloseHandle\<close> fails.
  The result is the text written and the last-error value afterwards.
\<close>

definition CloseHandle :: "message_table \<Rightarrow> popen_os \<Rightarrow> HANDLE \<Rightarrow> DWORD \<Rightarrow> string \<times> DWORD" where
  "CloseHandle FormatMessage os H LastErr =
     (case close_fails os H of
        None \<Rightarrow> ([], LastErr)
      | Some e \<Rightarrow> (snd (ReportLastError FormatMessage e (Some ''CloseHandle'')), e))"

text \<open>
  The read loop. \<open>Chunk\<close> is a \<open>size_t\<close>; \<open>ReadFile\<close> takes it as a \<open>DWORD\<close>, so the bytes
  requested are \<open>Chunk mod 2 ^ 32\<close>. The result is the buffer, the text written and one
  \<open>Read_from\<close> event for each call of \<open>ReadFile\<close>. For a buffer of capacity zero \<open>&Buf[Len]\<close>
  is the address one past the last element, where \<open>operator[]\<close> asserts in a build of LLVM
  with assertions; the loop is modelled as built without them, where nothing is read.
\<close>

function read_loop :: "message_table \<Rightarrow> HANDLE \<Rightarrow> nat \<Rightarrow> pipe_item list \<Rightarrow> DWORD \<Rightarrow> byte SmallVector \<Rightarrow> byte SmallVector \<times> string \<times> event list" where
  "read_loop FormatMessage hOutputRead Chunk pipe LastErr Buf =
     (let Len = length (elems Buf);
          Buf1 = resize (Len + Chunk) Buf
      in case ReadFile pipe (Chunk mod 2 ^ 32) LastErr of (Result, data, Err, pipe') \<Rightarrow>
           let dwRead = length data;
               Buf2 = Buf1\<lparr>elems := take Len (elems Buf1) @ stored data (drop Len (elems Buf1))\<rparr>
           in if \<not> Result \<or> dwRead = 0 then
                (resize Len Buf2,
                 if Err \<noteq> ERROR_BROKEN_PIPE then ReportError FormatMessage Err (Some ''ReadFile'') else [],
                 [Read_from hOutputRead])
              else
                (let Buf3 = (if dwRead < Chunk then resize (Len + dwRead) Buf2 else Buf2)
                 in case read_loop FormatMessage hOutputRead Chunk pipe' Err Buf3 of
                      (B, text, reads) \<Rightarrow> (B, text, Read_from hOutputRead # reads)))"
  by pat_completeness auto
termination
  by (relation "measure (\<lambda>(fm, h, Chunk, pipe, LastErr, Buf). pipe_size pipe)")
     (auto dest: ReadFile_consumes [OF sym])

declare read_loop.simps [simp del]

text \<open>
  \<open>Popen(Cmd, Buf, RdE)\<close> after the three handles exist: from the comment "Close inheritable
  copies of the handles you do not want to be inherited" to the end. \<open>hErrorWrite\<close> is
  \<open>Some\<close> exactly when \<open>RdE\<close> is set, so \<open>if (RdE)\<close> is a case distinction on it.
\<close>

definition Popen_run :: "message_table \<Rightarrow> popen_os \<Rightarrow> string \<Rightarrow> byte SmallVector \<Rightarrow> HANDLE \<Rightarrow> HANDLE \<Rightarrow> HANDLE \<Rightarrow> HANDLE option \<Rightarrow> event list \<Rightarrow> popen_result" where
  "Popen_run FormatMessage os Cmd Buf hOutputReadTmp hOutputRead hOutputWrite hErrorWrite prior =
     (case CloseHandle FormatMessage os hOutputReadTmp (entry_error os) of (text1, last1) \<Rightarrow>
     (let spawn = CreateProcessA os Cmd;
          Err = (case spawn of Inl e \<Rightarrow> e | Inr child \<Rightarrow> last1)
      in (case CloseHandle FormatMessage os hOutputWrite Err of (text2, last2) \<Rightarrow>
         (case (case hErrorWrite of
                  None \<Rightarrow> ([], last2, [])
                | Some E \<Rightarrow> (case CloseHandle FormatMessage os E last2 of
                               (t, l) \<Rightarrow> (t, l, [Closed E]))) of (text3, last3, closedE) \<Rightarrow>
         (let setup = prior @ [Closed hOutputReadTmp]
                      @ (case spawn of Inl e \<Rightarrow> [] | Inr (hProcess, hThread) \<Rightarrow> [Spawned hProcess hThread])
                      @ [Closed hOutputWrite] @ closedE
          in (case spawn of
                Inr (hProcess, hThread) \<Rightarrow>
                  (let Chunk = capacity Buf
                   in (case read_loop FormatMessage hOutputRead Chunk (pipe_contents os) last3 Buf of
                         (Buf', text4, reads) \<Rightarrow>
                      (case CloseHandle FormatMessage os hProcess last3 of (text5, last5) \<Rightarrow>
                      (case CloseHandle FormatMessage os hThread last5 of (text6, last6) \<Rightarrow>
                      (case CloseHandle FormatMessage os hOutputRead last6 of (text7, last7) \<Rightarrow>
                         \<lparr>errs = text1 @ text2 @ text3 @ text4 @ text5 @ text6 @ text7,
                          events = setup @ reads
                                   @ [Closed hProcess, Closed hThread, Closed hOutputRead],
                          returned = (elems Buf' \<noteq> []), buffer = Buf'\<rparr>)))))
              | Inl e \<Rightarrow>
                  (case CloseHandle FormatMessage os hOutputRead last3 of (text7, last7) \<Rightarrow>
                     \<lparr>errs = text1 @ text2 @ text3
                             @ ReportError FormatMessage Err (Some ''CreateProcess'') @ text7,
                      events = setup @ [Closed hOutputRead],
                      returned = (elems Buf \<noteq> []), buffer = Buf\<rparr>)))))))"

text \<open>
  \<open>Popen(Cmd, Buf, RdE)\<close>, from \<open>Buf.resize(0)\<close> to the duplication of the read handle. The
  early returns close their handles with \<open>::CloseHandle\<close>, whose result is not looked at.
\<close>

definition Popen :: "message_table \<Rightarrow> popen_os \<Rightarrow> string \<Rightarrow> byte SmallVector \<Rightarrow> bool \<Rightarrow> popen_result" where
  "Popen FormatMessage os Cmd Buf0 RdE =
     (let Buf = resize 0 Buf0
      in case CreatePipe os of
           None \<Rightarrow> \<lparr>errs = [], events = [], returned = False, buffer = Buf\<rparr>
         | Some (hOutputReadTmp, hOutputWrite) \<Rightarrow>
             (case (if RdE then map_sum id Some (DuplicateHandle os hOutputWrite) else Inr None) of
                Inl e \<Rightarrow>
                  \<lparr>errs = snd (ReportLastError FormatMessage e (Some ''DuplicateHandle'')),
                   events = [Pipe_created hOutputReadTmp hOutputWrite,
                             Closed hOutputReadTmp, Closed hOutputWrite],
                   returned = False, buffer = Buf\<rparr>
              | Inr hErrorWrite \<Rightarrow>
                  (let created = Pipe_created hOutputReadTmp hOutputWrite
                                 # (case hErrorWrite of None \<Rightarrow> []
                                    | Some E \<Rightarrow> [Duplicated hOutputWrite E])
                   in case DuplicateHandle os hOutputReadTmp of
                        Inl e \<Rightarrow>
                          \<lparr>errs = snd (ReportLastError FormatMessage e (Some ''DuplicateHandle'')),
                           events = created @ [Closed hOutputReadTmp, Closed hOutputWrite]
                                    @ (case hErrorWrite of None \<Rightarrow> [] | Some E \<Rightarrow> [Closed E]),
                           returned = False, buffer = Buf\<rparr>
                      | Inr hOutputRead \<Rightarrow>
                          Popen_run FormatMessage os Cmd Buf hOutputReadTmp hOutputRead hOutputWrite
                            hErrorWrite (created @ [Duplicated hOutputReadTmp hOutputRead]))))"

text \<open>
  What the pipe delivers to the read loop. \<open>child_output\<close> is everything the child wrote;
  \<open>received\<close> is what the reads deliver up to the first result that ends the loop (a failed
  read or a read of zero bytes); \<open>undisturbed\<close> says that no read fails and no write is
  empty before the pipe closes.
\<close>

fun child_output :: "pipe_item list \<Rightarrow> byte list" where
  "child_output [] = []"
| "child_output (Read_error e # rest) = child_output rest"
| "child_output (Data bs # rest) = bs @ child_output rest"

fun received :: "pipe_item list \<Rightarrow> byte list" where
  "received [] = []"
| "received (Read_error e # rest) = []"
| "received (Data bs # rest) = (if bs = [] then [] else bs @ received rest)"

fun undisturbed :: "pipe_item list \<Rightarrow> bool" where
  "undisturbed [] = True"
| "undisturbed (Read_error e # rest) = False"
| "undisturbed (Data bs # rest) = (bs \<noteq> [] \<and> undisturbed rest)"

text \<open>
  The calls before the read loop all succeed: the pipe is created, the handles are
  duplicated (the write end only when \<open>RdE\<close> is set) and the child is started.
\<close>

definition reaches_read_loop :: "popen_os \<Rightarrow> string \<Rightarrow> bool \<Rightarrow> bool" where
  "reaches_read_loop os Cmd RdE =
     (case CreatePipe os of
        None \<Rightarrow> False
      | Some (hOutputReadTmp, hOutputWrite) \<Rightarrow>
          (if RdE then \<not> isl (DuplicateHandle os hOutputWrite) else True)
          \<and> \<not> isl (DuplicateHandle os hOutputReadTmp)
          \<and> \<not> isl (CreateProcessA os Cmd))"

text \<open>
  The events of creating the pipe and, when there is one, the second write handle.
\<close>

definition made :: "HANDLE \<Rightarrow> HANDLE \<Rightarrow> HANDLE option \<Rightarrow> event list" where
  "made r w ew = Pipe_created r w # (case ew of None \<Rightarrow> [] | Some E \<Rightarrow> [Duplicated w E])"

text \<open>
  Systems for the examples: one where every call succeeds, each duplicate being the handle
  plus \<open>0x100\<close>, and the child writes \<open>items\<close>; and one where the child cannot be started.
\<close>

definition example_os :: "pipe_item list \<Rightarrow> popen_os" where
  "example_os items =
     \<lparr>CreatePipe = Some (0x10, 0x14), DuplicateHandle = (\<lambda>h. Inr (h + 0x100)),
      CreateProcessA = (\<lambda>Cmd. Inr (0x20, 0x24)), close_fails = (\<lambda>h. None),
      pipe_contents = items, entry_error = 0\<rparr>"

definition failing_os :: "popen_os" where
  "failing_os =
     \<lparr>CreatePipe = Some (0x10, 0x14), DuplicateHandle = (\<lambda>h. Inr (h + 0x100)),
      CreateProcessA = (\<lambda>Cmd. Inl 2), close_fails = (\<lambda>h. None),
      pipe_contents = [], entry_error = 0\<rparr>"

section \<open>IsDLL\<close>

text \<open>
  The system as \<open>IsDLL\<close> sees it; each call gives its result and \<open>GetLastError()\<close> afterwards.
  \<open>CreateFileA\<close> gives \<open>INVALID_HANDLE_VALUE\<close> on failure, \<open>CreateFileMapping\<close> gives \<open>NULL\<close>
  on failure, \<open>MapViewOfFile\<close> gives the base address and the bytes of the view, or \<open>None\<close>
  for \<open>NULL\<close>.
\<close>

record file_os =
  CreateFileA :: "string \<Rightarrow> HANDLE \<times> DWORD"
  CreateFileMapping :: "HANDLE \<Rightarrow> HANDLE \<times> DWORD"
  MapViewOfFile :: "HANDLE \<Rightarrow> (address \<times> byte list) option \<times> DWORD"

text \<open>
  The function returns a boolean, or it reads memory outside the mapped view, where the
  program's behaviour is undefined (an access violation when the page is not mapped).
\<close>

datatype 'a outcome = Returns 'a | Reads_outside_view

record isdll_result = effects +
  answer :: "bool outcome"

text \<open>Constants and field offsets of \<open>winnt.h\<close>; fields are little-endian.\<close>

definition IMAGE_DOS_SIGNATURE :: nat where
  "IMAGE_DOS_SIGNATURE = 0x5A4D"

definition IMAGE_NT_SIGNATURE :: nat where
  "IMAGE_NT_SIGNATURE = 0x00004550"

definition IMAGE_FILE_DLL :: "16 word" where
  "IMAGE_FILE_DLL = 0x2000"

definition offset_e_lfanew :: int where
  "offset_e_lfanew = 60"

definition offset_Characteristics :: int where
  "offset_Characteristics = 22"

definition read_field :: "byte list \<Rightarrow> int \<Rightarrow> nat \<Rightarrow> nat option" where
  "read_field view off n =
     (if 0 \<le> off \<and> nat off + n \<le> length view
      then Some (foldr (\<lambda>b v. unat b + 256 * v) (take n (drop (nat off) view)) 0)
      else None)"

text \<open>
  The header test: \<open>e_magic\<close>, then the \<open>IMAGE_NT_HEADERS\<close> at \<open>lpFileBase + e_lfanew\<close>
  (\<open>e_lfanew\<close> is a signed \<open>LONG\<close>), whose \<open>Signature\<close> is read first and whose
  \<open>FileHeader.Characteristics\<close> is read only when the signature matches.
\<close>

definition inspect_headers :: "byte list \<Rightarrow> bool outcome" where
  "inspect_headers view =
     (case read_field view 0 2 of
        None \<Rightarrow> Reads_outside_view
      | Some e_magic \<Rightarrow>
          if e_magic = IMAGE_DOS_SIGNATURE then
            (case read_field view offset_e_lfanew 4 of
               None \<Rightarrow> Reads_outside_view
             | Some raw \<Rightarrow>
                 (let e_lfanew = sint (word_of_nat raw :: 32 word)
                  in case read_field view e_lfanew 4 of
                       None \<Rightarrow> Reads_outside_view
                     | Some Signature \<Rightarrow>
                         if Signature = IMAGE_NT_SIGNATURE then
                           (case read_field view (e_lfanew + offset_Characteristics) 2 of
                              None \<Rightarrow> Reads_outside_view
                            | Some Characteristics \<Rightarrow>
                                Returns ((word_of_nat Characteristics :: 16 word) AND IMAGE_FILE_DLL \<noteq> 0))
                         else Returns False))
          else Returns False)"

text \<open>
  \<open>IsDLL(Path)\<close>. A mapping is a resource only when \<open>CreateFileMapping\<close> gave a handle other
  than \<open>NULL\<close>; the code compares it with \<open>INVALID_HANDLE_VALUE\<close>.
\<close>

definition IsDLL :: "message_table \<Rightarrow> file_os \<Rightarrow> string \<Rightarrow> isdll_result" where
  "IsDLL FormatMessage os Path =
     (case CreateFileA os Path of (hFile, e1) \<Rightarrow>
        if hFile = INVALID_HANDLE_VALUE then
          \<lparr>errs = snd (ReportLastError FormatMessage e1 (Some ''CreateFile'')), events = [],
           answer = Returns False\<rparr>
        else
          (case CreateFileMapping os hFile of (hFileMapping, e2) \<Rightarrow>
             if hFileMapping = INVALID_HANDLE_VALUE then
               \<lparr>errs = snd (ReportLastError FormatMessage e2 (Some ''CreateFileMapping'')),
                events = [File_opened hFile, Closed hFile],
                answer = Returns False\<rparr>
             else
               (let opened = File_opened hFile
                             # (if hFileMapping \<noteq> NULL then [Mapping_created hFileMapping] else [])
                in case MapViewOfFile os hFileMapping of
                     (None, e3) \<Rightarrow>
                       \<lparr>errs = snd (ReportLastError FormatMessage e3 (Some ''CreateFileMapping'')),
                        events = opened @ [Closed hFileMapping, Closed hFile],
                        answer = Returns False\<rparr>
                   | (Some (lpFileBase, view), e3) \<Rightarrow>
                       (case inspect_headers view of
                          Reads_outside_view \<Rightarrow>
                            \<lparr>errs = [], events = opened @ [View_mapped lpFileBase],
                             answer = Reads_outside_view\<rparr>
                        | Returns isDLL \<Rightarrow>
                            \<lparr>errs = [],
                             events = opened @ [View_mapped lpFileBase, View_unmapped lpFileBase,
                                                Closed hFileMapping, Closed hFile],
                             answer = Returns isDLL\<rparr>))))"

text \<open>
  A system with one file, behaving as Windows documents: opening another path fails with
  \<open>ERROR_FILE_NOT_FOUND\<close> (2); a mapping of an empty file cannot be created
  (\<open>ERROR_FILE_INVALID\<close>, 1006, and \<open>NULL\<close>); mapping a view of anything but the mapping fails
  with \<open>ERROR_INVALID_HANDLE\<close> (6); the view holds the file's bytes followed by zeros up to
  the end of its last 4096-byte page.
\<close>

definition page_padded :: "byte list \<Rightarrow> byte list" where
  "page_padded contents = contents @ replicate ((4096 - length contents mod 4096) mod 4096) 0"

definition single_file :: "string \<Rightarrow> byte list \<Rightarrow> file_os" where
  "single_file name contents =
     \<lparr>CreateFileA = (\<lambda>p. if p = name then (0x44, 0) else (INVALID_HANDLE_VALUE, 2)),
      CreateFileMapping = (\<lambda>h. if h = 0x44 \<and> contents \<noteq> [] then (0x48, 0)
                                 else (NULL, if h = 0x44 then 1006 else 6)),
      MapViewOfFile = (\<lambda>h. if h = 0x48 then (Some (0x10000, page_padded contents), 0)
                             else (None, 6))\<rparr>"

text \<open>
  The view \<open>IsDLL\<close> gets to inspect, if it gets one; and whether the \<open>IMAGE_NT_HEADERS\<close> up
  to the end of its \<open>FileHeader\<close> (24 bytes from \<open>e_lfanew\<close>) lie inside the view.
\<close>

definition mapped_view :: "file_os \<Rightarrow> string \<Rightarrow> byte list option" where
  "mapped_view os Path =
     (let hFile = fst (CreateFileA os Path)
      in if hFile = INVALID_HANDLE_VALUE then None
         else (let hFileMapping = fst (CreateFileMapping os hFile)
               in if hFileMapping = INVALID_HANDLE_VALUE then None
                  else map_option snd (fst (MapViewOfFile os hFileMapping))))"

definition nt_header_in_view :: "byte list \<Rightarrow> bool" where
  "nt_header_in_view view =
     (case read_field view offset_e_lfanew 4 of
        None \<Rightarrow> False
      | Some raw \<Rightarrow>
          (let e_lfanew = sint (word_of_nat raw :: 32 word)
           in 0 \<le> e_lfanew \<and> nat e_lfanew + 24 \<le> length view))"

text \<open>
  Files for the examples: a library of 88 bytes (\<open>MZ\<close>, \<open>e_lfanew = 0x40\<close>, \<open>PE\<close>, the
  characteristics \<open>0x2002\<close>); the same with a damaged magic number; and a file of 64 bytes
  that starts with \<open>MZ\<close> and whose \<open>e_lfanew\<close> is \<open>0x100000\<close>.
\<close>

definition small_dll :: "byte list" where
  "small_dll = [0x4D, 0x5A] @ replicate 58 0 @ [0x40, 0, 0, 0] @ [0x50, 0x45, 0, 0] @ replicate 18 0 @ [0x02, 0x20]"

definition corrupted_dll :: "byte list" where
  "corrupted_dll = [0x4D, 0x00] @ drop 2 small_dll"

definition wild_header :: "byte list" where
  "wild_header = [0x4D, 0x5A] @ replicate 58 0 @ [0x00, 0x00, 0x10, 0x00]"

section \<open>Facts about DLSym\<close>

text \<open>
  The two loops as one function of the handles visited, the vector after each enumeration,
  and from them \<open>DLSym\<close> as a function of the two module lists.
\<close>

lemma probe_all_NULL: "fst (probe_all gpa Name hs) = NULL \<longleftrightarrow> (\<forall>h\<in>set hs. gpa h Name = NULL)"
  by (induction hs) (auto simp: Let_def split: prod.splits)

lemma probe_all_NULL_calls: "fst (probe_all gpa Name hs) = NULL \<Longrightarrow> snd (probe_all gpa Name hs) = map Probe hs"
  by (induction hs) (auto simp: Let_def split: prod.splits if_splits)

lemma probe_down_eq:
  "i < length M \<Longrightarrow> probe_down gpa Name M lo i = probe_all gpa Name (rev (take (i - lo) (drop (Suc lo) M)))"
proof (induction gpa Name M lo i rule: probe_down.induct)
  case (1 gpa Name Modules NumFirst i)
  show ?case
  proof (cases "i > NumFirst")
    case False
    then show ?thesis by (simp add: probe_down.simps)
  next
    case True
    then obtain k where k: "i - NumFirst = Suc k" by (metis Suc_diff_Suc)
    have ik: "NumFirst + Suc k = i" using k True by simp
    have len: "Suc NumFirst + k < length Modules" using ik "1.prems" by simp
    have tk: "take (Suc k) (drop (Suc NumFirst) Modules) = take k (drop (Suc NumFirst) Modules) @ [Modules ! i]"
      using len ik by (simp add: take_Suc_conv_app_nth)
    have k2: "i - 1 - NumFirst = k" using k by simp
    show ?thesis
    proof (cases "gpa (Modules ! i) Name = NULL")
      case False
      then show ?thesis using True k tk by (simp add: probe_down.simps [of _ _ _ _ i] Let_def)
    next
      case eq: True
      have "probe_down gpa Name Modules NumFirst (i - 1)
            = probe_all gpa Name (rev (take (i - 1 - NumFirst) (drop (Suc NumFirst) Modules)))"
        using "1.IH" [OF True refl] eq "1.prems" by simp
      then show ?thesis using True k tk eq k2 by (simp add: probe_down.simps [of _ _ _ _ i] Let_def)
    qed
  qed
qed

lemma length_stored: "length (stored src buf) = length buf"
  by (simp add: stored_def)

lemma nth_stored: "j < length buf \<Longrightarrow> stored src buf ! j = (if j < length src then src ! j else buf ! j)"
  by (simp add: stored_def nth_append)

lemma refill_tail:
  assumes "128 < n" "length pre = 128" "n \<le> c"
  shows "drop 129 (stored (take c ms2) (pre @ replicate (n - 128) z))
         = drop 129 (take n ms2 @ replicate (n - length ms2) z)"
    (is "drop 129 ?L = drop 129 ?R")
proof -
  have lenL: "length ?L = n" using assms by (simp add: length_stored)
  have lenR: "length ?R = n" by simp
  have "?L ! j = ?R ! j" if "129 \<le> j" "j < n" for j
    using that assms by (simp add: nth_stored nth_append)
  then have "\<forall>i < length (drop 129 ?L). drop 129 ?L ! i = drop 129 ?R ! i"
    using lenL lenR assms(1) by (simp only: nth_drop length_drop) simp
  moreover have "length (drop 129 ?L) = length (drop 129 ?R)"
    using lenL lenR by (simp only: length_drop)
  ultimately show ?thesis by (simp only: list_eq_iff_nth_eq) 
qed

lemma DLSym_unfold:
  assumes "first_enum P = Some ms"
  shows "DLSym fm P Name Err =
    (case probe_all (GetProcAddress P) Name (rev (take 128 ms)) of (Addr, calls) \<Rightarrow>
       if Addr \<noteq> NULL then (Addr, Err, Enumerate 1024 # calls)
       else if 128 < length ms then
         (case second_enum P of
            None \<Rightarrow> (NULL, failed_text fm P Err, Enumerate 1024 # calls @ [Enumerate (max 257 (length ms) * 8)])
          | Some ms2 \<Rightarrow>
              (case probe_all (GetProcAddress P) Name (second_capture ms ms2) of (Addr, calls2) \<Rightarrow>
                 (Addr, Err, Enumerate 1024 # calls @ [Enumerate (max 257 (length ms) * 8)] @ calls2)))
       else (NULL, Err, Enumerate 1024 # calls))"
proof -
  let ?gpa = "GetProcAddress P"
  have m0: "resize (capacity inline_Modules) inline_Modules = \<lparr>elems = replicate 128 NULL, capacity = 128\<rparr>"
    by (simp add: resize_def inline_Modules_def)
  have e1: "EnumProcessModulesEx (first_enum P) (replicate 128 NULL) (128 * sizeof_HMODULE)
            = Some (stored (take 128 ms) (replicate 128 NULL), sizeof_HMODULE * length ms)"
    using assms by (simp add: EnumProcessModulesEx_def sizeof_HMODULE_def)
  have sz: "sizeof_HMODULE * length ms div sizeof_HMODULE = length ms"
    by (simp add: sizeof_HMODULE_def)
  have st: "length (stored (take 128 ms) (replicate 128 NULL)) = 128"
    by (simp add: length_stored)
  define M1 where "M1 = (if length ms < 128
       then resize (length ms) \<lparr>elems = stored (take 128 ms) (replicate 128 NULL), capacity = 128\<rparr>
       else \<lparr>elems = stored (take 128 ms) (replicate 128 NULL), capacity = 128\<rparr>)"
  have M1: "M1 = \<lparr>elems = take 128 ms, capacity = 128\<rparr>"
    by (simp add: M1_def resize_def stored_def)
  have step: "DLSym fm P Name Err =
     (case probe_all ?gpa Name (rev (elems M1)) of (Addr, calls) \<Rightarrow>
        if Addr \<noteq> NULL then (Addr, Err, Enumerate (128 * sizeof_HMODULE) # calls)
        else if 128 < length ms then
          (case EnumProcessModulesEx (second_enum P) (elems (resize (length ms) M1))
                  (capacity (resize (length ms) M1) * sizeof_HMODULE) of
             None \<Rightarrow> (NULL, failed_text fm P Err,
                       Enumerate (128 * sizeof_HMODULE) # calls
                       @ [Enumerate (capacity (resize (length ms) M1) * sizeof_HMODULE)])
           | Some (refilled, Bytes2) \<Rightarrow>
               (case probe_down ?gpa Name refilled 128 (length ms - 1) of (Addr, calls2) \<Rightarrow>
                  (Addr, Err, Enumerate (128 * sizeof_HMODULE) # calls
                     @ [Enumerate (capacity (resize (length ms) M1) * sizeof_HMODULE)] @ calls2)))
        else (NULL, Err, Enumerate (128 * sizeof_HMODULE) # calls))"
    unfolding DLSym_def m0 Let_def failed_text_def [symmetric] M1_def
    by (simp only: SmallVector.simps e1 option.case prod.case sz st)
  have r2: "128 < length ms \<Longrightarrow> resize (length ms) M1
              = \<lparr>elems = take 128 ms @ replicate (length ms - 128) NULL, capacity = max 257 (length ms)\<rparr>"
    by (simp add: M1 resize_def grow_pod_def)
  have pd: "probe_down ?gpa Name
                (stored (take (max 257 (length ms)) ms2) (take 128 ms @ replicate (length ms - 128) NULL))
                128 (length ms - 1)
              = probe_all ?gpa Name (second_capture ms ms2)" if True: "128 < length ms" for ms2
  proof -
    have "length ms - 1 < length (stored (take (max 257 (length ms)) ms2) (take 128 ms @ replicate (length ms - 128) NULL))"
      using True by (simp add: length_stored)
    from probe_down_eq [OF this]
    have "probe_down ?gpa Name
              (stored (take (max 257 (length ms)) ms2) (take 128 ms @ replicate (length ms - 128) NULL))
              128 (length ms - 1)
          = probe_all ?gpa Name
              (rev (take (length ms - 1 - 128)
                 (drop (Suc 128) (stored (take (max 257 (length ms)) ms2) (take 128 ms @ replicate (length ms - 128) NULL)))))"
      by simp
    moreover have "drop (Suc 128) (stored (take (max 257 (length ms)) ms2) (take 128 ms @ replicate (length ms - 128) NULL))
         = drop 129 (take (length ms) ms2 @ replicate (length ms - length ms2) NULL)"
      using refill_tail [of "length ms" "take 128 ms" "max 257 (length ms)" ms2 NULL] True by simp
    ultimately show ?thesis by (simp add: second_capture_def)
  qed
  show ?thesis
  proof (cases "128 < length ms")
    case False
    then show ?thesis unfolding step by (simp add: M1 sizeof_HMODULE_def split: prod.splits)
  next
    case True
    have pd': "probe_down ?gpa Name
                (stored (take (max 257 (length ms)) ms2) (take 128 ms @ replicate (length ms - 128) NULL))
                128 (length ms - Suc 0)
              = probe_all ?gpa Name (second_capture ms ms2)" for ms2
      using pd [OF True, of ms2] by simp
    show ?thesis unfolding step r2 [OF True]
      using True
      by (simp add: M1 EnumProcessModulesEx_def sizeof_HMODULE_def pd' split: option.splits prod.splits)
  qed
qed

lemma DLSym_enum_fails:
  "first_enum P = None \<Longrightarrow> DLSym fm P Name Err = (NULL, failed_text fm P Err, [Enumerate 1024])"
  by (simp add: DLSym_def EnumProcessModulesEx_def sizeof_HMODULE_def Let_def resize_def inline_Modules_def failed_text_def)

lemma set_second_capture: "set (second_capture ms ms2) \<subseteq> set ms2 \<union> {NULL}"
proof -
  have "set (second_capture ms ms2) \<subseteq> set (take (length ms) ms2 @ replicate (length ms - length ms2) NULL)"
    unfolding second_capture_def set_rev
    by (meson set_take_subset set_drop_subset subset_trans)
  also have "\<dots> \<subseteq> set ms2 \<union> {NULL}"
    using set_take_subset [of "length ms" ms2] by auto
  finally show ?thesis .
qed

lemma DLSym_nothing_exported:
  assumes "list_all (\<lambda>h. GetProcAddress P h Name = NULL) (probed_handles P)"
  shows "fst (DLSym fm P Name Err) = NULL"
proof (cases "first_enum P")
  case None
  then show ?thesis by (simp add: DLSym_enum_fails)
next
  case (Some ms)
  have all: "\<And>h. h \<in> set ms \<Longrightarrow> GetProcAddress P h Name = NULL"
    and null: "GetProcAddress P NULL Name = NULL"
    and all2: "\<And>ms2 h. second_enum P = Some ms2 \<Longrightarrow> h \<in> set ms2 \<Longrightarrow> GetProcAddress P h Name = NULL"
    using assms Some by (auto simp: probed_handles_def list_all_iff split: option.splits)
  have first: "fst (probe_all (GetProcAddress P) Name (rev (take 128 ms))) = NULL"
    unfolding probe_all_NULL using all by (auto dest: in_set_takeD)
  have second: "fst (probe_all (GetProcAddress P) Name (second_capture ms ms2)) = NULL"
    if "second_enum P = Some ms2" for ms2
    unfolding probe_all_NULL using all2 [OF that] null set_second_capture [of ms ms2] by auto
  show ?thesis
    using first second
    by (auto simp: DLSym_unfold [OF Some] split: prod.splits option.splits)
qed

lemma probe_all_no_enumerate: "filter is_enumerate (snd (probe_all gpa Name hs)) = []"
  by (induction hs) (auto simp: Let_def split: prod.splits)

lemma nth_second_capture:
  assumes "128 < i" "i < length ms" "i < length ms2"
  shows "ms2 ! i \<in> set (second_capture ms ms2)"
proof -
  let ?R = "take (length ms) ms2 @ replicate (length ms - length ms2) NULL"
  have len: "length ?R = length ms" by simp
  have e: "129 + (i - 129) = i" using assms by simp
  have "take (length ms - 129) (drop 129 ?R) = drop 129 ?R" using len by simp
  moreover have "drop 129 ?R ! (i - 129) = ?R ! i"
  proof -
    have le: "129 \<le> length ?R" unfolding len using assms by simp
    show ?thesis using nth_drop [OF le, of "i - 129"] by (simp only: e)
  qed
  moreover have "?R ! i = ms2 ! i" using assms by (simp add: nth_append)
  moreover have "i - 129 < length (drop 129 ?R)" using assms by (simp only: length_drop len)
  ultimately show ?thesis
    unfolding second_capture_def set_rev by (metis nth_mem)
qed

section \<open>Facts about the read loop and Popen\<close>

text \<open>
  The buffer after the read loop, by induction on the loop; the four ways through \<open>Popen\<close>
  up to the read handle; and the events of each.
\<close>

lemma received_undisturbed: "undisturbed pipe \<Longrightarrow> received pipe = child_output pipe"
  by (induction pipe rule: undisturbed.induct) auto

lemma received_empty: "child_output pipe = [] \<Longrightarrow> received pipe = []"
  by (induction pipe rule: received.induct) auto

lemma elems_resize: "elems (resize N v) = take N (elems v) @ replicate (N - length (elems v)) 0"
  by (simp add: resize_def)

lemma resize_0: "resize 0 v = v\<lparr>elems := []\<rparr>"
  by (simp add: resize_def)

lemma ReadFile_received:
  assumes "ReadFile pipe n LastErr = (Result, data, Err, pipe')" "0 < n"
  shows "received pipe = (if Result \<and> data \<noteq> [] then data @ received pipe' else [])"
  using assms by (induction pipe n LastErr rule: ReadFile.induct) (auto split: if_splits)

lemma ReadFile_length:
  "ReadFile pipe n LastErr = (Result, data, Err, pipe') \<Longrightarrow> length data \<le> n"
  by (induction pipe n LastErr rule: ReadFile.induct) auto

lemma read_loop_elems:
  "elems (fst (read_loop fm h Chunk pipe LastErr Buf))
     = elems Buf @ (if Chunk mod 2 ^ 32 = 0 then [] else received pipe)"
proof (induction fm h Chunk pipe LastErr Buf rule: read_loop.induct)
  case (1 fm h Chunk pipe LastErr Buf)
  obtain Result data Err pipe' where rf: "ReadFile pipe (Chunk mod 2 ^ 32) LastErr = (Result, data, Err, pipe')"
    by (metis prod_cases4)
  let ?Len = "length (elems Buf)"
  let ?Buf1 = "resize (?Len + Chunk) Buf"
  let ?Buf2 = "?Buf1\<lparr>elems := take ?Len (elems ?Buf1) @ stored data (drop ?Len (elems ?Buf1))\<rparr>"
  let ?Buf3 = "if length data < Chunk then resize (?Len + length data) ?Buf2 else ?Buf2"
  have le: "length data \<le> Chunk mod 2 ^ 32" using ReadFile_length [OF rf] .
  then have le': "length data \<le> Chunk" by (meson le_trans mod_less_eq_dividend)
  have b2: "elems ?Buf2 = elems Buf @ data @ replicate (Chunk - length data) 0"
    using le' by (simp add: elems_resize stored_def)
  have b3: "elems ?Buf3 = elems Buf @ data"
    using le' b2 by (auto simp: elems_resize)
  show ?case
  proof (cases "\<not> Result \<or> length data = 0")
    case True
    have stop: "received pipe = []" if "0 < Chunk mod 2 ^ 32"
      using ReadFile_received [OF rf that] True by auto
    have "elems (fst (read_loop fm h Chunk pipe LastErr Buf)) = elems (resize ?Len ?Buf2)"
      using True rf by (subst read_loop.simps) (simp add: Let_def)
    also have "\<dots> = elems Buf" using b2 by (simp add: elems_resize)
    finally show ?thesis using stop by auto
  next
    case False
    then have pos: "0 < Chunk mod 2 ^ 32" using le by (cases data) auto
    have rec: "received pipe = data @ received pipe'"
      using ReadFile_received [OF rf pos] False by auto
    have "elems (fst (read_loop fm h Chunk pipe LastErr Buf)) = elems (fst (read_loop fm h Chunk pipe' Err ?Buf3))"
      using False rf by (subst read_loop.simps) (simp add: Let_def split: prod.splits)
    also have "\<dots> = elems ?Buf3 @ (if Chunk mod 2 ^ 32 = 0 then [] else received pipe')"
      using "1.IH" [OF refl refl rf [symmetric] refl refl refl refl _ refl] False by simp
    finally show ?thesis using b3 rec pos by simp
  qed
qed

lemma read_loop_events:
  "\<exists>k. snd (snd (read_loop fm h Chunk pipe LastErr Buf)) = replicate (Suc k) (Read_from h)"
proof (induction fm h Chunk pipe LastErr Buf rule: read_loop.induct)
  case (1 fm h Chunk pipe LastErr Buf)
  obtain Result data Err pipe' where rf: "ReadFile pipe (Chunk mod 2 ^ 32) LastErr = (Result, data, Err, pipe')"
    by (metis prod_cases4)
  show ?case
  proof (cases "\<not> Result \<or> length data = 0")
    case True
    have "snd (snd (read_loop fm h Chunk pipe LastErr Buf)) = replicate (Suc 0) (Read_from h)"
      using True rf by (subst read_loop.simps) (simp add: Let_def)
    then show ?thesis by blast
  next
    case False
    let ?Len = "length (elems Buf)"
    let ?Buf1 = "resize (?Len + Chunk) Buf"
    let ?Buf2 = "?Buf1\<lparr>elems := take ?Len (elems ?Buf1) @ stored data (drop ?Len (elems ?Buf1))\<rparr>"
    let ?Buf3 = "if length data < Chunk then resize (?Len + length data) ?Buf2 else ?Buf2"
    from "1.IH" [OF refl refl rf [symmetric] refl refl refl refl _ refl] False
    obtain k where k: "snd (snd (read_loop fm h Chunk pipe' Err ?Buf3)) = replicate (Suc k) (Read_from h)"
      by auto
    have "snd (snd (read_loop fm h Chunk pipe LastErr Buf)) = Read_from h # snd (snd (read_loop fm h Chunk pipe' Err ?Buf3))"
      using False rf by (subst read_loop.simps) (simp add: Let_def split: prod.splits)
    then have "snd (snd (read_loop fm h Chunk pipe LastErr Buf)) = replicate (Suc (Suc k)) (Read_from h)"
      using k by simp
    then show ?thesis by blast
  qed
qed

lemma Popen_run_buffer_failed:
  "CreateProcessA os Cmd = Inl e \<Longrightarrow> buffer (Popen_run fm os Cmd Buf tmp rd wr ew prior) = Buf"
  by (simp add: Popen_run_def Let_def split_beta)

lemma Popen_run_buffer_spawned:
  "CreateProcessA os Cmd = Inr child \<Longrightarrow>
   \<exists>LastErr. buffer (Popen_run fm os Cmd Buf tmp rd wr ew prior)
      = fst (read_loop fm rd (capacity Buf) (pipe_contents os) LastErr Buf)"
  by (cases child) (auto simp add: Popen_run_def Let_def split_beta)

lemma Popen_run_buffer:
  "elems (buffer (Popen_run fm os Cmd Buf tmp rd wr ew prior))
     = (if isl (CreateProcessA os Cmd) then elems Buf
        else elems Buf @ (if capacity Buf mod 2 ^ 32 = 0 then [] else received (pipe_contents os)))"
proof (cases "CreateProcessA os Cmd")
  case (Inl e)
  then show ?thesis by (simp add: Popen_run_buffer_failed)
next
  case (Inr child)
  from Popen_run_buffer_spawned [OF this, of fm Buf tmp rd wr ew prior]
  obtain LastErr where "buffer (Popen_run fm os Cmd Buf tmp rd wr ew prior)
      = fst (read_loop fm rd (capacity Buf) (pipe_contents os) LastErr Buf)" by blast
  then show ?thesis using Inr by (simp only: read_loop_elems) simp
qed

lemma Popen_run_returned:
  "returned (Popen_run fm os Cmd Buf tmp rd wr ew prior)
     = (elems (buffer (Popen_run fm os Cmd Buf tmp rd wr ew prior)) \<noteq> [])"
proof (cases "CreateProcessA os Cmd")
  case (Inl e)
  then show ?thesis by (simp add: Popen_run_def Let_def split_beta)
next
  case (Inr child)
  then show ?thesis by (cases child) (simp add: Popen_run_def Let_def split_beta)
qed

lemma Popen_run_events:
  "\<exists>k. events (Popen_run fm os Cmd Buf tmp rd wr ew prior)
     = prior @ [Closed tmp]
       @ (case CreateProcessA os Cmd of Inl e \<Rightarrow> [] | Inr (p, t) \<Rightarrow> [Spawned p t])
       @ [Closed wr] @ (case ew of None \<Rightarrow> [] | Some E \<Rightarrow> [Closed E])
       @ (case CreateProcessA os Cmd of Inl e \<Rightarrow> []
          | Inr (p, t) \<Rightarrow> replicate (Suc k) (Read_from rd) @ [Closed p, Closed t])
       @ [Closed rd]"
proof (cases "CreateProcessA os Cmd")
  case (Inl e)
  then show ?thesis by (cases ew) (simp_all add: Popen_run_def Let_def split_beta)
next
  case (Inr child)
  obtain p t where child: "child = (p, t)" by (cases child)
  define L where "L = fst (snd (case ew of None \<Rightarrow> ([], snd (CloseHandle fm os wr (snd (CloseHandle fm os tmp (entry_error os)))), [])
               | Some E \<Rightarrow> (case CloseHandle fm os E (snd (CloseHandle fm os wr (snd (CloseHandle fm os tmp (entry_error os))))) of
                              (t, l) \<Rightarrow> (t, l, [Closed E]))))"
  have ev: "events (Popen_run fm os Cmd Buf tmp rd wr ew prior)
     = prior @ [Closed tmp] @ [Spawned p t] @ [Closed wr] @ (case ew of None \<Rightarrow> [] | Some E \<Rightarrow> [Closed E])
       @ snd (snd (read_loop fm rd (capacity Buf) (pipe_contents os) L Buf)) @ [Closed p, Closed t] @ [Closed rd]"
    unfolding L_def using Inr child by (cases ew) (simp_all add: Popen_run_def Let_def split_beta)
  obtain k where k: "snd (snd (read_loop fm rd (capacity Buf) (pipe_contents os) L Buf)) = replicate (Suc k) (Read_from rd)"
    using read_loop_events by blast
  have "events (Popen_run fm os Cmd Buf tmp rd wr ew prior)
     = prior @ [Closed tmp]
       @ (case CreateProcessA os Cmd of Inl e \<Rightarrow> [] | Inr (p, t) \<Rightarrow> [Spawned p t])
       @ [Closed wr] @ (case ew of None \<Rightarrow> [] | Some E \<Rightarrow> [Closed E])
       @ (case CreateProcessA os Cmd of Inl e \<Rightarrow> []
          | Inr (p, t) \<Rightarrow> replicate (Suc k) (Read_from rd) @ [Closed p, Closed t])
       @ [Closed rd]"
    unfolding ev k using Inr child by simp
  then show ?thesis by (rule exI)
qed

lemma Popen_no_pipe:
  "CreatePipe os = None \<Longrightarrow>
   Popen fm os Cmd Buf RdE = \<lparr>errs = [], events = [], returned = False, buffer = resize 0 Buf\<rparr>"
  by (simp add: Popen_def)

lemma Popen_no_error_handle:
  "CreatePipe os = Some (r, w) \<Longrightarrow> RdE \<Longrightarrow> DuplicateHandle os w = Inl e \<Longrightarrow>
   Popen fm os Cmd Buf RdE =
     \<lparr>errs = snd (ReportLastError fm e (Some ''DuplicateHandle'')),
      events = [Pipe_created r w, Closed r, Closed w],
      returned = False, buffer = resize 0 Buf\<rparr>"
  by (simp add: Popen_def)

lemma Popen_no_read_handle:
  "CreatePipe os = Some (r, w) \<Longrightarrow>
   (if RdE then DuplicateHandle os w = Inr E \<and> ew = Some E else ew = None) \<Longrightarrow>
   DuplicateHandle os r = Inl e \<Longrightarrow>
   Popen fm os Cmd Buf RdE =
     \<lparr>errs = snd (ReportLastError fm e (Some ''DuplicateHandle'')),
      events = made r w ew @ [Closed r, Closed w] @ (case ew of None \<Rightarrow> [] | Some E \<Rightarrow> [Closed E]),
      returned = False, buffer = resize 0 Buf\<rparr>"
  by (cases RdE) (simp_all add: Popen_def made_def)

lemma Popen_runs:
  "CreatePipe os = Some (r, w) \<Longrightarrow>
   (if RdE then DuplicateHandle os w = Inr E \<and> ew = Some E else ew = None) \<Longrightarrow>
   DuplicateHandle os r = Inr rd \<Longrightarrow>
   Popen fm os Cmd Buf RdE = Popen_run fm os Cmd (resize 0 Buf) r rd w ew (made r w ew @ [Duplicated r rd])"
  by (cases RdE) (simp_all add: Popen_def made_def)

lemma Popen_cases [case_names no_pipe no_error_handle no_read_handle runs]:
  obtains "CreatePipe os = None"
  | r w e where "CreatePipe os = Some (r, w)" "RdE" "DuplicateHandle os w = Inl e"
  | r w E ew e where "CreatePipe os = Some (r, w)"
      "if RdE then DuplicateHandle os w = Inr E \<and> ew = Some E else ew = None"
      "DuplicateHandle os r = Inl e"
  | r w E ew rd where "CreatePipe os = Some (r, w)"
      "if RdE then DuplicateHandle os w = Inr E \<and> ew = Some E else ew = None"
      "DuplicateHandle os r = Inr rd"
proof (cases "CreatePipe os")
  case None
  then show ?thesis using that(1) by blast
next
  case (Some rw)
  obtain r w where rw: "CreatePipe os = Some (r, w)" using Some by (cases rw) simp
  show ?thesis
  proof (cases RdE)
    case True
    show ?thesis
    proof (cases "DuplicateHandle os w")
      case (Inl e)
      then show ?thesis using that(2) rw True by blast
    next
      case (Inr E)
      then have c: "if RdE then DuplicateHandle os w = Inr E \<and> Some E = Some E else Some E = None"
        using True by simp
      show ?thesis
        using that(3) [OF rw c] that(4) [OF rw c] by (cases "DuplicateHandle os r") blast+
    qed
  next
    case False
    then have c: "if RdE then DuplicateHandle os w = Inr undefined \<and> None = Some undefined else (None :: HANDLE option) = None"
      by simp
    show ?thesis
      using that(3) [OF rw c] that(4) [OF rw c] by (cases "DuplicateHandle os r") blast+
  qed
qed

lemma Popen_returned:
  "returned (Popen fm os Cmd Buf RdE) = (elems (buffer (Popen fm os Cmd Buf RdE)) \<noteq> [])"
proof (cases rule: Popen_cases [where os = os and RdE = RdE])
  case no_pipe
  then show ?thesis by (simp add: Popen_no_pipe resize_0)
next
  case (no_error_handle r w e)
  then show ?thesis by (simp add: Popen_no_error_handle resize_0)
next
  case (no_read_handle r w E ew e)
  then show ?thesis by (simp add: Popen_no_read_handle [OF no_read_handle] resize_0)
next
  case (runs r w E ew rd)
  show ?thesis by (simp only: Popen_runs [OF runs] Popen_run_returned)
qed

lemma Popen_buffer:
  "elems (buffer (Popen fm os Cmd Buf RdE))
     = (if reaches_read_loop os Cmd RdE \<and> capacity Buf mod 2 ^ 32 \<noteq> 0
        then received (pipe_contents os) else [])"
proof (cases rule: Popen_cases [where os = os and RdE = RdE])
  case no_pipe
  then show ?thesis by (simp add: Popen_no_pipe resize_0 reaches_read_loop_def)
next
  case (no_error_handle r w e)
  then show ?thesis by (simp add: Popen_no_error_handle resize_0 reaches_read_loop_def)
next
  case (no_read_handle r w E ew e)
  then show ?thesis by (simp add: Popen_no_read_handle [OF no_read_handle] resize_0 reaches_read_loop_def)
next
  case (runs r w E ew rd)
  have "reaches_read_loop os Cmd RdE = (\<not> isl (CreateProcessA os Cmd))"
    using runs by (auto simp: reaches_read_loop_def)
  then show ?thesis
    by (simp add: Popen_runs [OF runs] Popen_run_buffer resize_0)
qed

lemma closed_before_reading_append:
  "\<not> list_ex is_read es \<Longrightarrow> closed_before_reading W (es @ Closed W # rest)"
proof (induction es)
  case Nil
  then show ?case by simp
next
  case (Cons e es)
  then show ?case by (cases e) auto
qed

lemma held_after_append: "held_after (es @ es') H = held_after es' (held_after es H)"
  by (induction es arbitrary: H) auto

lemma held_after_reads: "held_after (replicate n (Read_from h)) H = H"
  by (induction n) auto

lemma leaked_run:
  "leaked (made r w ew @ [Duplicated r rd] @ [Closed r]
       @ (case spawn of Inl e \<Rightarrow> [] | Inr (p, t) \<Rightarrow> [Spawned p t])
       @ [Closed w] @ (case ew of None \<Rightarrow> [] | Some E \<Rightarrow> [Closed E])
       @ (case spawn of Inl e \<Rightarrow> []
          | Inr (p, t) \<Rightarrow> replicate (Suc k) (Read_from rd) @ [Closed p, Closed t])
       @ [Closed rd]) = []"
  by (auto simp: leaked_def made_def held_after_append held_after_reads split: sum.splits option.splits)

lemma leaked_no_read_handle:
  "leaked (made r w ew @ [Closed r, Closed w] @ (case ew of None \<Rightarrow> [] | Some E \<Rightarrow> [Closed E])) = []"
  by (auto simp: leaked_def made_def split: option.splits)

lemma Popen_no_leak: "leaked (events (Popen fm os Cmd Buf RdE)) = []"
proof (cases rule: Popen_cases [where os = os and RdE = RdE])
  case no_pipe
  then show ?thesis by (simp add: Popen_no_pipe leaked_def)
next
  case (no_error_handle r w e)
  then show ?thesis by (simp add: Popen_no_error_handle leaked_def)
next
  case (no_read_handle r w E ew e)
  show ?thesis
    by (simp only: Popen_no_read_handle [OF no_read_handle] effects.simps leaked_no_read_handle)
next
  case (runs r w E ew rd)
  obtain k where ev: "events (Popen fm os Cmd Buf RdE)
     = (made r w ew @ [Duplicated r rd]) @ [Closed r]
       @ (case CreateProcessA os Cmd of Inl e \<Rightarrow> [] | Inr (p, t) \<Rightarrow> [Spawned p t])
       @ [Closed w] @ (case ew of None \<Rightarrow> [] | Some E \<Rightarrow> [Closed E])
       @ (case CreateProcessA os Cmd of Inl e \<Rightarrow> []
          | Inr (p, t) \<Rightarrow> replicate (Suc k) (Read_from rd) @ [Closed p, Closed t])
       @ [Closed rd]"
    unfolding Popen_runs [OF runs] using Popen_run_events by blast
  show ?thesis unfolding ev append_assoc by (rule leaked_run)
qed

section \<open>Facts about IsDLL\<close>

text \<open>
  The answer of \<open>IsDLL\<close> in terms of the view and the header test, and the header fields of
  the example files.
\<close>

lemma IsDLL_answer:
  "answer (IsDLL fm os Path) = (case mapped_view os Path of None \<Rightarrow> Returns False | Some view \<Rightarrow> inspect_headers view)"
  by (auto simp: IsDLL_def mapped_view_def Let_def split: prod.splits option.splits outcome.splits)

lemma IsDLL_no_leak:
  "answer (IsDLL fm os Path) \<noteq> Reads_outside_view \<Longrightarrow> leaked (events (IsDLL fm os Path)) = []"
  by (auto simp: IsDLL_def leaked_def Let_def split: prod.splits option.splits outcome.splits if_splits)

lemma read_field_Some: "0 \<le> off \<Longrightarrow> nat off + n \<le> length view \<Longrightarrow> \<exists>v. read_field view off n = Some v"
  by (simp add: read_field_def)

lemma inspect_in_view:
  assumes "nt_header_in_view view"
  shows "\<exists>b. inspect_headers view = Returns b"
proof -
  from assms obtain raw where raw: "read_field view offset_e_lfanew 4 = Some raw"
    by (auto simp: nt_header_in_view_def split: option.splits)
  define e where "e = sint (word_of_nat raw :: 32 word)"
  have e: "0 \<le> e" "nat e + 24 \<le> length view"
    using assms raw by (auto simp: nt_header_in_view_def e_def Let_def)
  have "64 \<le> length view" using raw by (auto simp: read_field_def offset_e_lfanew_def split: if_splits)
  then obtain m where m: "read_field view 0 2 = Some m" using read_field_Some [of 0 2 view] by auto
  obtain sg where sg: "read_field view e 4 = Some sg" using read_field_Some [of e 4 view] e by auto
  obtain ch where ch: "read_field view (e + offset_Characteristics) 2 = Some ch"
    using read_field_Some [of "e + offset_Characteristics" 2 view] e
    by (auto simp: offset_Characteristics_def nat_add_distrib)
  show ?thesis using m raw sg ch by (auto simp: inspect_headers_def e_def [symmetric] Let_def)
qed

lemma inspect_bad_magic:
  "read_field view 0 2 = Some m \<Longrightarrow> m \<noteq> IMAGE_DOS_SIGNATURE \<Longrightarrow> inspect_headers view = Returns False"
  by (simp add: inspect_headers_def)

lemma mapped_view_single_file:
  "mapped_view (single_file name contents) p
     = (if p = name \<and> contents \<noteq> [] then Some (page_padded contents) else None)"
  by (simp add: mapped_view_def single_file_def INVALID_HANDLE_VALUE_def Let_def)

lemma wild_view: "page_padded wild_header = wild_header @ replicate 4032 0"
  by (simp add: page_padded_def wild_header_def)

lemma wild_magic: "read_field (page_padded wild_header) 0 2 = Some IMAGE_DOS_SIGNATURE"
  by (simp add: wild_view read_field_def IMAGE_DOS_SIGNATURE_def) (simp add: wild_header_def)

lemma wild_lfanew: "read_field (page_padded wild_header) offset_e_lfanew 4 = Some 1048576"
  by (simp add: wild_view read_field_def offset_e_lfanew_def) (simp add: wild_header_def)

lemma wild_signature: "read_field (page_padded wild_header) 1048576 4 = None"
  by (simp add: wild_view read_field_def) (simp add: wild_header_def)

lemma small_view: "page_padded small_dll = small_dll @ replicate 4008 0"
  by (simp add: page_padded_def small_dll_def)

lemma small_length: "length (page_padded small_dll) = 4096"
  by (simp add: small_view) (simp add: small_dll_def)

lemma small_magic: "read_field (page_padded small_dll) 0 2 = Some IMAGE_DOS_SIGNATURE"
  by (simp add: small_view read_field_def IMAGE_DOS_SIGNATURE_def) (simp add: small_dll_def)

lemma small_lfanew: "read_field (page_padded small_dll) offset_e_lfanew 4 = Some 64"
  by (simp add: small_view read_field_def offset_e_lfanew_def) (simp add: small_dll_def)

lemma small_signature: "read_field (page_padded small_dll) 64 4 = Some IMAGE_NT_SIGNATURE"
  by (simp add: small_view read_field_def IMAGE_NT_SIGNATURE_def) (simp add: small_dll_def)

lemma small_characteristics: "read_field (page_padded small_dll) (64 + offset_Characteristics) 2 = Some 0x2002"
  by (simp add: small_view read_field_def offset_Characteristics_def) (simp add: small_dll_def)

lemma small_dll_is_DLL: "answer (IsDLL fm (single_file ''a.dll'' small_dll) ''a.dll'') = Returns True"
proof -
  have "small_dll \<noteq> []" by (simp add: small_dll_def)
  then have "mapped_view (single_file ''a.dll'' small_dll) ''a.dll'' = Some (page_padded small_dll)"
    by (simp add: mapped_view_single_file)
  moreover have "inspect_headers (page_padded small_dll) = Returns True"
    by (simp add: inspect_headers_def small_magic small_lfanew small_signature small_characteristics
          IMAGE_FILE_DLL_def)
  ultimately show ?thesis by (simp add: IsDLL_answer)
qed

lemma small_in_view: "nt_header_in_view (page_padded small_dll)"
  by (simp add: nt_header_in_view_def small_lfanew small_length)

lemma corrupted_view: "page_padded corrupted_dll = corrupted_dll @ replicate 4008 0"
  by (simp add: page_padded_def corrupted_dll_def small_dll_def)

lemma corrupted_magic: "read_field (page_padded corrupted_dll) 0 2 = Some 0x4D"
  by (simp add: corrupted_view read_field_def) (simp add: corrupted_dll_def)

lemma decimal_2: "decimal 2 = [CHR ''2'']"
  by code_simp

section \<open>C1: the order of the search\<close>

text \<open>
  A loop over handles returns the address from the first of them that exports the name and
  probes none after it. With at most 128 modules \<open>DLSym\<close> is that loop over the reverse of
  the enumeration.
\<close>

lemma probe_all_found:
  "fst (probe_all gpa Name hs) \<noteq> NULL \<Longrightarrow>
   \<exists>pre h post. hs = pre @ h # post \<and> (\<forall>x\<in>set pre. gpa x Name = NULL) \<and> gpa h Name \<noteq> NULL
      \<and> probe_all gpa Name hs = (gpa h Name, map Probe (pre @ [h]))"
proof (induction hs)
  case Nil
  then show ?case by simp
next
  case (Cons a hs)
  show ?case
  proof (cases "gpa a Name = NULL")
    case True
    with Cons.prems have "fst (probe_all gpa Name hs) \<noteq> NULL"
      by (simp add: Let_def split: prod.splits)
    from Cons.IH [OF this] obtain pre h post where
      *: "hs = pre @ h # post" "\<forall>x\<in>set pre. gpa x Name = NULL" "gpa h Name \<noteq> NULL"
         "probe_all gpa Name hs = (gpa h Name, map Probe (pre @ [h]))"
      by blast
    have "a # hs = (a # pre) @ h # post" using * by simp
    moreover have "\<forall>x\<in>set (a # pre). gpa x Name = NULL" using * True by simp
    moreover have "probe_all gpa Name (a # hs) = (gpa h Name, map Probe ((a # pre) @ [h]))"
      using * True by (simp add: Let_def)
    ultimately show ?thesis using *(3) by blast
  next
    case False
    have "a # hs = [] @ a # hs" by simp
    moreover have "probe_all gpa Name (a # hs) = (gpa a Name, map Probe ([] @ [a]))"
      using False by (simp add: Let_def)
    ultimately show ?thesis using False by (metis empty_iff list.set(1))
  qed
qed

lemma DLSym_small_process:
  assumes "first_enum P = Some ms" "length ms \<le> 128"
  shows "DLSym fm P Name Err =
           (case probe_all (GetProcAddress P) Name (rev ms) of
              (Addr, calls) \<Rightarrow> (Addr, Err, Enumerate 1024 # calls))"
  using assms by (auto simp: DLSym_unfold [OF assms(1)] split: prod.splits)

text \<open>
  Claim C1 at a process of 130 modules, loaded in the order of their handles 1 to 130, where
  module 1 exports \<open>S\<close> at \<open>0x1000\<close> and module 130 exports it at \<open>0x2000\<close>: \<open>DLSym\<close> returns
  the address from module 1, the module loaded first, because the 128 handles of the first
  capture are searched before the second enumeration is made. With three modules the
  module loaded last wins. And at a process of 129 modules where only module 129 exports
  \<open>S\<close>, the name is not found at all: that module is element 128 of the vector, which the
  first loop does not hold and the second loop, running while \<open>i > NumFirst\<close>, does not reach.
\<close>

theorem DLSym_first_capture_shadows_later_modules:
  "fst (DLSym no_messages (loaded 130 [(1, 0x1000), (130, 0x2000)]) ''S'' None) = 0x1000
   \<and> fst (DLSym no_messages (loaded 3 [(1, 0x1000), (3, 0x2000)]) ''S'' None) = 0x2000
   \<and> fst (DLSym no_messages (loaded 129 [(129, 0x2000)]) ''S'' None) = NULL"
  by code_simp

section \<open>C2: the second enumeration\<close>

text \<open>
  Claim C2, as the code has it. \<open>DLSym\<close> enumerates the modules at most twice. The first
  capture is never discarded: its at most 128 handles are probed, last one first, before
  anything else. A second enumeration is made exactly when the first call reported more than
  128 modules and none of the 128 captured exports the name; its buffer holds at least the
  number of modules the first call reported, and no enumeration follows it. When it
  succeeds and the name is not found, every module it stored at an index above 128 (and below
  the number first reported) has been probed.
\<close>

theorem DLSym_retry:
  fixes fm P Name Err
  defines "calls \<equiv> snd (snd (DLSym fm P Name Err))"
  defines "retry \<equiv> (case first_enum P of None \<Rightarrow> False
                     | Some ms \<Rightarrow> 128 < length ms
                         \<and> list_all (\<lambda>h. GetProcAddress P h Name = NULL) (take 128 ms))"
  shows "(retry \<longrightarrow> (\<exists>ms cb2 calls2. first_enum P = Some ms
              \<and> calls = Enumerate 1024 # map Probe (rev (take 128 ms)) @ [Enumerate cb2] @ calls2
              \<and> length ms * sizeof_HMODULE \<le> cb2 \<and> filter is_enumerate calls2 = []))
       \<and> (\<not> retry \<longrightarrow> filter is_enumerate calls = [Enumerate 1024])
       \<and> (\<forall>ms ms2 i. first_enum P = Some ms \<longrightarrow> second_enum P = Some ms2 \<longrightarrow> retry
              \<longrightarrow> fst (DLSym fm P Name Err) = NULL
              \<longrightarrow> 128 < i \<longrightarrow> i < length ms \<longrightarrow> i < length ms2 \<longrightarrow> Probe (ms2 ! i) \<in> set calls)"
proof (cases "first_enum P")
  case None
  then show ?thesis by (simp add: calls_def retry_def DLSym_enum_fails)
next
  case (Some ms)
  note Some1 = this
  let ?gpa = "GetProcAddress P"
  obtain a1 c1 where p1: "probe_all ?gpa Name (rev (take 128 ms)) = (a1, c1)" by fastforce
  have c1e: "filter is_enumerate c1 = []"
    using probe_all_no_enumerate [of ?gpa Name "rev (take 128 ms)"] p1 by simp
  have a1: "a1 = NULL \<longleftrightarrow> list_all (\<lambda>h. ?gpa h Name = NULL) (take 128 ms)"
    using probe_all_NULL [of ?gpa Name "rev (take 128 ms)"] p1 by (simp add: list_all_iff)
  show ?thesis
  proof (cases retry)
    case False
    then have "a1 \<noteq> NULL \<or> \<not> 128 < length ms" using a1 Some1 by (auto simp: retry_def)
    then have "filter is_enumerate calls = [Enumerate 1024]"
      using p1 c1e by (auto simp: calls_def DLSym_unfold [OF Some1])
    then show ?thesis using False by simp
  next
    case True
    then have big: "128 < length ms" and nul: "a1 = NULL" using a1 Some1 by (auto simp: retry_def)
    have c1: "c1 = map Probe (rev (take 128 ms))"
      using probe_all_NULL_calls [of ?gpa Name "rev (take 128 ms)"] p1 nul by simp
    let ?cb2 = "max 257 (length ms) * 8"
    have cb2: "length ms * sizeof_HMODULE \<le> ?cb2" by (simp add: sizeof_HMODULE_def)
    show ?thesis
    proof (cases "second_enum P")
      case None
      have "calls = Enumerate 1024 # map Probe (rev (take 128 ms)) @ [Enumerate ?cb2] @ []"
        using p1 nul big None c1 by (simp add: calls_def DLSym_unfold [OF Some1])
      then show ?thesis using True cb2 Some1 None by (metis filter.simps(1) option.distinct(1))
    next
      case (Some ms2)
      note Some2 = this
      obtain a2 c2 where p2: "probe_all ?gpa Name (second_capture ms ms2) = (a2, c2)" by fastforce
      have c2e: "filter is_enumerate c2 = []"
        using probe_all_no_enumerate [of ?gpa Name "second_capture ms ms2"] p2 by simp
      have res: "DLSym fm P Name Err = (a2, Err, Enumerate 1024 # map Probe (rev (take 128 ms)) @ [Enumerate ?cb2] @ c2)"
        using p1 p2 nul big Some2 c1 by (simp add: DLSym_unfold [OF Some1])
      have part1: "\<exists>ms' cb2 calls2. first_enum P = Some ms'
              \<and> calls = Enumerate 1024 # map Probe (rev (take 128 ms')) @ [Enumerate cb2] @ calls2
              \<and> length ms' * sizeof_HMODULE \<le> cb2 \<and> filter is_enumerate calls2 = []"
        using res cb2 c2e Some1 unfolding calls_def by (metis snd_conv)
      have part3: "Probe (ms2 ! i) \<in> set calls"
        if "fst (DLSym fm P Name Err) = NULL" "128 < i" "i < length ms" "i < length ms2" for i
      proof -
        have "a2 = NULL" using that(1) res by simp
        then have "c2 = map Probe (second_capture ms ms2)"
          using probe_all_NULL_calls [of ?gpa Name "second_capture ms ms2"] p2 by simp
        moreover have "ms2 ! i \<in> set (second_capture ms ms2)"
          using nth_second_capture that by simp
        ultimately show ?thesis using res by (simp add: calls_def)
      qed
      show ?thesis using True part1 part3 Some1 Some2 by auto
    qed
  qed
qed

theorem DLSym_retry_witness:
  "(\<exists>cb2 calls2.
       snd (snd (DLSym no_messages (loaded 130 []) ''S'' None))
         = Enumerate 1024 # map Probe (rev (take 128 (many_modules 130))) @ [Enumerate cb2] @ calls2
       \<and> 130 * sizeof_HMODULE \<le> cb2 \<and> filter is_enumerate calls2 = [])
   \<and> Probe (many_modules 130 ! 129) \<in> set (snd (snd (DLSym no_messages (loaded 130 []) ''S'' None)))
   \<and> filter is_enumerate (snd (snd (DLSym no_messages (loaded 3 []) ''S'' None))) = [Enumerate 1024]"
proof -
  let ?P = "loaded 130 []"
  have fe: "first_enum ?P = Some (many_modules 130)" and se: "second_enum ?P = Some (many_modules 130)"
    by (simp_all add: loaded_def)
  have len: "length (many_modules 130) = 130" by (simp add: many_modules_def)
  have retry: "(case first_enum ?P of None \<Rightarrow> False
                | Some ms \<Rightarrow> 128 < length ms \<and> list_all (\<lambda>h. GetProcAddress ?P h ''S'' = NULL) (take 128 ms))"
    by (simp add: loaded_def len exporting_def list_all_iff)
  have nf: "fst (DLSym no_messages ?P ''S'' None) = NULL"
    by (rule DLSym_nothing_exported) (simp add: loaded_def exporting_def list_all_iff)
  note T = DLSym_retry [of ?P "''S''" no_messages None]
  from T retry obtain ms cb2 calls2 where
    "first_enum ?P = Some ms"
    "snd (snd (DLSym no_messages ?P ''S'' None)) = Enumerate 1024 # map Probe (rev (take 128 ms)) @ [Enumerate cb2] @ calls2"
    "length ms * sizeof_HMODULE \<le> cb2" "filter is_enumerate calls2 = []"
    by blast
  then have A: "\<exists>cb2 calls2.
       snd (snd (DLSym no_messages ?P ''S'' None))
         = Enumerate 1024 # map Probe (rev (take 128 (many_modules 130))) @ [Enumerate cb2] @ calls2
       \<and> 130 * sizeof_HMODULE \<le> cb2 \<and> filter is_enumerate calls2 = []"
    using fe len by auto
  have B: "Probe (many_modules 130 ! 129) \<in> set (snd (snd (DLSym no_messages ?P ''S'' None)))"
    using T retry fe se nf len by simp
  let ?Q = "loaded 3 []"
  have nretry: "\<not> (case first_enum ?Q of None \<Rightarrow> False
                | Some ms \<Rightarrow> 128 < length ms \<and> list_all (\<lambda>h. GetProcAddress ?Q h ''S'' = NULL) (take 128 ms))"
    by (simp add: loaded_def many_modules_def)
  have C: "filter is_enumerate (snd (snd (DLSym no_messages ?Q ''S'' None))) = [Enumerate 1024]"
    using DLSym_retry [of ?Q "''S''" no_messages None] nretry by blast
  show ?thesis using A B C by blast
qed

text \<open>
  The claim as the specification words it fails twice. With 129 modules of which the first
  exports \<open>S\<close>, only one enumeration is made although the system reported more modules than
  the buffer held. With 129 modules of which only the last exports \<open>S\<close>, the second
  enumeration succeeds and stores that module at index 128, which neither loop visits: the
  second loop runs while \<open>i > NumFirst\<close>, and the name is not found.
\<close>

theorem DLSym_retry_counterexample:
  "filter is_enumerate (snd (snd (DLSym no_messages (loaded 129 [(1, 0x1000)]) ''S'' None))) = [Enumerate 1024]
   \<and> fst (DLSym no_messages (loaded 129 [(129, 0x2000)]) ''S'' None) = NULL
   \<and> filter is_enumerate (snd (snd (DLSym no_messages (loaded 129 [(129, 0x2000)]) ''S'' None))) = [Enumerate 1024, Enumerate 2056]
   \<and> Probe 129 \<notin> set (snd (snd (DLSym no_messages (loaded 129 [(129, 0x2000)]) ''S'' None)))"
  by code_simp

section \<open>C3: the bytes captured\<close>

text \<open>
  Claim C3, as the code has it. When the calls before the read loop succeed and the chunk
  (the capacity of the caller's buffer, as \<open>ReadFile\<close> sees it) is not zero, the buffer
  returned holds exactly the bytes received up to the first read that fails or gives zero
  bytes, each once and in order, whatever their number and however the reads divide them;
  when no read fails and no write is empty, those are all the bytes the child wrote.
\<close>

theorem Popen_captures_output:
  assumes "reaches_read_loop os Cmd RdE" "capacity Buf mod 2 ^ 32 \<noteq> 0"
  shows "elems (buffer (Popen fm os Cmd Buf RdE)) = received (pipe_contents os)
       \<and> (undisturbed (pipe_contents os)
            \<longrightarrow> elems (buffer (Popen fm os Cmd Buf RdE)) = child_output (pipe_contents os))"
  using assms by (simp add: Popen_buffer received_undisturbed)

theorem Popen_captures_output_witness:
  "reaches_read_loop (example_os [Data [1, 2, 3, 4, 5], Data [6], Data [7, 8, 9]]) ''cmd'' True
   \<and> capacity \<lparr>elems = [9, 9 :: byte], capacity = 4\<rparr> mod 2 ^ 32 \<noteq> 0
   \<and> undisturbed (pipe_contents (example_os [Data [1, 2, 3, 4, 5], Data [6], Data [7, 8, 9]]))
   \<and> elems (buffer (Popen no_messages (example_os [Data [1, 2, 3, 4, 5], Data [6], Data [7, 8, 9]]) ''cmd''
                        \<lparr>elems = [9, 9], capacity = 4\<rparr> True)) = [1, 2, 3, 4, 5, 6, 7, 8, 9]"
proof -
  let ?os = "example_os [Data [1, 2, 3, 4, 5], Data [6], Data [7, 8, 9]]"
  have a: "reaches_read_loop ?os ''cmd'' True" by (simp add: reaches_read_loop_def example_os_def)
  have b: "capacity \<lparr>elems = [9, 9 :: byte], capacity = 4\<rparr> mod 2 ^ 32 \<noteq> 0" by simp
  have c: "undisturbed (pipe_contents ?os)" by (simp add: example_os_def)
  have d: "child_output (pipe_contents ?os) = [1, 2, 3, 4, 5, 6, 7, 8, 9]" by (simp add: example_os_def)
  from Popen_captures_output [OF a b, of no_messages] c
  have "elems (buffer (Popen no_messages ?os ''cmd'' \<lparr>elems = [9, 9], capacity = 4\<rparr> True))
          = child_output (pipe_contents ?os)"
    by blast
  from this [THEN trans, OF d] a b c show ?thesis by blast
qed

text \<open>
  The claim as the specification words it, all the bytes of every child that was started,
  fails where the loop stops early, as \<open>if (!Result || !dwRead)\<close> makes it: a child that
  writes three bytes, then nothing in a write of its own, then two more, leaves the three in
  a buffer of capacity 2; a read that fails with error 5 after six of seven bytes leaves
  the six in a buffer of capacity 4; and with a buffer of capacity zero the first read asks
  for no bytes and ends the loop.
\<close>

theorem Popen_truncates_output:
  "reaches_read_loop (example_os [Data [1, 2, 3], Data [], Data [4, 5]]) ''cmd'' False
   \<and> child_output (pipe_contents (example_os [Data [1, 2, 3], Data [], Data [4, 5]])) = [1, 2, 3, 4, 5]
   \<and> elems (buffer (Popen no_messages (example_os [Data [1, 2, 3], Data [], Data [4, 5]]) ''cmd''
                        \<lparr>elems = [], capacity = 2\<rparr> False)) = [1, 2, 3]
   \<and> child_output (pipe_contents (example_os [Data [1, 2, 3, 4, 5, 6], Read_error 5, Data [7]]))
       = [1, 2, 3, 4, 5, 6, 7]
   \<and> elems (buffer (Popen no_messages (example_os [Data [1, 2, 3, 4, 5, 6], Read_error 5, Data [7]]) ''cmd''
                        \<lparr>elems = [], capacity = 4\<rparr> False)) = [1, 2, 3, 4, 5, 6]
   \<and> child_output (pipe_contents (example_os [Data [1, 2, 3]])) = [1, 2, 3]
   \<and> elems (buffer (Popen no_messages (example_os [Data [1, 2, 3]]) ''cmd''
                        \<lparr>elems = [], capacity = 0\<rparr> False)) = []"
proof -
  have r: "reaches_read_loop (example_os items) ''cmd'' False" for items
    by (simp add: reaches_read_loop_def example_os_def)
  have p: "pipe_contents (example_os items) = items" for items
    by (simp add: example_os_def)
  show ?thesis by (simp add: Popen_buffer r p)
qed

section \<open>C4: the boolean returned\<close>

text \<open>
  Claim C4. \<open>Popen\<close> returns true exactly when the buffer it leaves is not empty. When the
  pipe cannot be created, a handle cannot be duplicated or the child cannot be started, and
  when the child writes nothing, the buffer is empty and the result is false.
\<close>

theorem Popen_returns_whether_output:
  fixes fm os Cmd Buf RdE
  defines "R \<equiv> Popen fm os Cmd Buf RdE"
  shows "returned R = (elems (buffer R) \<noteq> [])
       \<and> (\<not> reaches_read_loop os Cmd RdE \<longrightarrow> elems (buffer R) = [] \<and> \<not> returned R)
       \<and> (child_output (pipe_contents os) = [] \<longrightarrow> elems (buffer R) = [] \<and> \<not> returned R)"
  unfolding R_def by (simp add: Popen_returned Popen_buffer received_empty)

theorem Popen_returns_whether_output_witness:
  "\<not> reaches_read_loop failing_os ''cmd'' False
   \<and> elems (buffer (Popen no_messages failing_os ''cmd'' \<lparr>elems = [9, 9], capacity = 4\<rparr> False)) = []
   \<and> \<not> returned (Popen no_messages failing_os ''cmd'' \<lparr>elems = [9, 9], capacity = 4\<rparr> False)
   \<and> child_output (pipe_contents (example_os [Data []])) = []
   \<and> elems (buffer (Popen no_messages (example_os [Data []]) ''cmd'' \<lparr>elems = [9, 9], capacity = 4\<rparr> False)) = []
   \<and> \<not> returned (Popen no_messages (example_os [Data []]) ''cmd'' \<lparr>elems = [9, 9], capacity = 4\<rparr> False)"
proof -
  have a: "\<not> reaches_read_loop failing_os ''cmd'' False"
    by (simp add: reaches_read_loop_def failing_os_def)
  have b: "child_output (pipe_contents (example_os [Data []])) = []" by (simp add: example_os_def)
  show ?thesis
    using Popen_returns_whether_output [of no_messages failing_os "''cmd''" "\<lparr>elems = [9, 9], capacity = 4\<rparr>" False]
          Popen_returns_whether_output [of no_messages "example_os [Data []]" "''cmd''" "\<lparr>elems = [9, 9], capacity = 4\<rparr>" False]
          a b
    by blast
qed

section \<open>C5: closing the write ends before reading\<close>

text \<open>
  Claim C5. In the events of every call, no read comes before \<open>CloseHandle(hOutputWrite)\<close>,
  nor, when \<open>RdE\<close> is set, before \<open>CloseHandle(hErrorWrite)\<close>; and a read is issued exactly
  when the calls before the read loop succeed.
\<close>

theorem Popen_closes_write_ends_before_reading:
  assumes "CreatePipe os = Some (hOutputReadTmp, hOutputWrite)"
  shows "closed_before_reading hOutputWrite (events (Popen fm os Cmd Buf RdE))
       \<and> (\<forall>hErrorWrite. RdE \<longrightarrow> DuplicateHandle os hOutputWrite = Inr hErrorWrite
              \<longrightarrow> closed_before_reading hErrorWrite (events (Popen fm os Cmd Buf RdE)))
       \<and> (list_ex is_read (events (Popen fm os Cmd Buf RdE)) = reaches_read_loop os Cmd RdE)"
proof (cases rule: Popen_cases [where os = os and RdE = RdE])
  case no_pipe
  then show ?thesis using assms by simp
next
  case (no_error_handle r w e)
  then show ?thesis using assms
    by (simp add: Popen_no_error_handle reaches_read_loop_def)
next
  case (no_read_handle r w E ew e)
  have ev: "events (Popen fm os Cmd Buf RdE)
      = made r w ew @ [Closed r, Closed w] @ (case ew of None \<Rightarrow> [] | Some E \<Rightarrow> [Closed E])"
    by (simp add: Popen_no_read_handle [OF no_read_handle])
  have "\<not> reaches_read_loop os Cmd RdE"
    using no_read_handle by (simp add: reaches_read_loop_def)
  then show ?thesis using assms no_read_handle unfolding ev
    by (auto simp: made_def split: if_splits)
next
  case (runs r w E ew rd)
  have rw: "r = hOutputReadTmp" "w = hOutputWrite" using runs(1) assms by simp_all
  obtain k where ev: "events (Popen fm os Cmd Buf RdE)
     = (made r w ew @ [Duplicated r rd]) @ [Closed r]
       @ (case CreateProcessA os Cmd of Inl e \<Rightarrow> [] | Inr (p, t) \<Rightarrow> [Spawned p t])
       @ [Closed w] @ (case ew of None \<Rightarrow> [] | Some E \<Rightarrow> [Closed E])
       @ (case CreateProcessA os Cmd of Inl e \<Rightarrow> []
          | Inr (p, t) \<Rightarrow> replicate (Suc k) (Read_from rd) @ [Closed p, Closed t])
       @ [Closed rd]"
    unfolding Popen_runs [OF runs] using Popen_run_events by blast
  let ?pre = "made r w ew @ [Duplicated r rd] @ [Closed r]
       @ (case CreateProcessA os Cmd of Inl e \<Rightarrow> [] | Inr (p, t) \<Rightarrow> [Spawned p t])"
  have pre: "\<not> list_ex is_read ?pre"
    by (auto simp: made_def split: option.splits sum.splits)
  have W: "closed_before_reading w (events (Popen fm os Cmd Buf RdE))"
    using closed_before_reading_append [OF pre, of w] unfolding ev by simp
  have E: "closed_before_reading E' (events (Popen fm os Cmd Buf RdE))"
    if "RdE" "DuplicateHandle os w = Inr E'" for E'
  proof -
    have ew: "ew = Some E'" using runs(2) that by simp
    have "\<not> list_ex is_read (?pre @ [Closed w])" using pre by simp
    from closed_before_reading_append [OF this, of E'] show ?thesis
      unfolding ev ew by simp
  qed
  have R: "list_ex is_read (events (Popen fm os Cmd Buf RdE)) = reaches_read_loop os Cmd RdE"
    unfolding ev using runs
    by (auto simp: reaches_read_loop_def made_def split: option.splits sum.splits if_splits)
  show ?thesis using W E R rw by blast
qed

theorem Popen_closes_write_ends_before_reading_witness:
  "CreatePipe (example_os [Data [1, 2, 3]]) = Some (0x10, 0x14)
   \<and> DuplicateHandle (example_os [Data [1, 2, 3]]) 0x14 = Inr 0x114
   \<and> closed_before_reading 0x14 (events (Popen no_messages (example_os [Data [1, 2, 3]]) ''cmd'' \<lparr>elems = [], capacity = 2\<rparr> True))
   \<and> closed_before_reading 0x114 (events (Popen no_messages (example_os [Data [1, 2, 3]]) ''cmd'' \<lparr>elems = [], capacity = 2\<rparr> True))
   \<and> list_ex is_read (events (Popen no_messages (example_os [Data [1, 2, 3]]) ''cmd'' \<lparr>elems = [], capacity = 2\<rparr> True))"
proof -
  let ?os = "example_os [Data [1, 2, 3]]"
  have a: "CreatePipe ?os = Some (0x10, 0x14)" by (simp add: example_os_def)
  have b: "DuplicateHandle ?os 0x14 = Inr 0x114" by (simp add: example_os_def)
  have c: "reaches_read_loop ?os ''cmd'' True" by (simp add: reaches_read_loop_def example_os_def)
  from Popen_closes_write_ends_before_reading [OF a, of no_messages "''cmd''" "\<lparr>elems = [], capacity = 2\<rparr>" True]
  show ?thesis using a b c by blast
qed

section \<open>C6: a name no module exports\<close>

text \<open>
  Claim C6, as the code has it. When no handle that \<open>DLSym\<close> can probe (the modules of
  either enumeration, and the null handle that pads the vector) exports the name, \<open>DLSym\<close>
  returns the null pointer, however many modules are mapped.
\<close>

theorem DLSym_not_found:
  assumes "list_all (\<lambda>h. GetProcAddress P h Name = NULL) (probed_handles P)"
  shows "fst (DLSym fm P Name Err) = NULL"
  using assms by (rule DLSym_nothing_exported)

theorem DLSym_not_found_witness:
  "list_all (\<lambda>h. GetProcAddress (loaded 130 [(7, 0x1000)]) h ''T'' = NULL)
      (probed_handles (loaded 130 [(7, 0x1000)]))
   \<and> fst (DLSym no_messages (loaded 130 [(7, 0x1000)]) ''T'' None) = NULL"
proof -
  have h: "list_all (\<lambda>h. GetProcAddress (loaded 130 [(7, 0x1000)]) h ''T'' = NULL)
      (probed_handles (loaded 130 [(7, 0x1000)]))"
    by (simp add: loaded_def exporting_def list_all_iff)
  from DLSym_not_found [OF h, of no_messages None] h show ?thesis by simp
qed

text \<open>
  The result for a name that is not found is \<open>nullptr\<close> itself, the value of the all-zero
  address, not an indicator apart from the addresses: here for three modules that export
  nothing.
\<close>

theorem DLSym_not_found_is_null_pointer:
  "list_all (\<lambda>h. GetProcAddress (loaded 3 []) h ''S'' = NULL) (probed_handles (loaded 3 []))
   \<and> fst (DLSym no_messages (loaded 3 []) ''S'' None) = NULL"
  by code_simp

section \<open>C7: resources\<close>

text \<open>
  Claim C7. Whenever \<open>Popen\<close> returns, and whenever \<open>IsDLL\<close> returns, every handle and view the
  call acquired has been passed to \<open>CloseHandle\<close> or \<open>UnmapViewOfFile\<close>: nothing is held.
\<close>

theorem resources_released_on_return:
  "leaked (events (Popen fm os Cmd Buf RdE)) = []
   \<and> (answer (IsDLL fm fs Path) \<noteq> Reads_outside_view \<longrightarrow> leaked (events (IsDLL fm fs Path)) = [])"
  by (simp add: Popen_no_leak IsDLL_no_leak)

theorem resources_released_on_return_witness:
  "leaked (events (Popen no_messages (example_os [Data [1, 2, 3]]) ''cmd'' \<lparr>elems = [], capacity = 2\<rparr> True)) = []
   \<and> answer (IsDLL no_messages (single_file ''a.dll'' small_dll) ''a.dll'') \<noteq> Reads_outside_view
   \<and> leaked (events (IsDLL no_messages (single_file ''a.dll'' small_dll) ''a.dll'')) = []"
proof -
  have a: "answer (IsDLL no_messages (single_file ''a.dll'' small_dll) ''a.dll'') \<noteq> Reads_outside_view"
    by (simp add: small_dll_is_DLL)
  from resources_released_on_return [of no_messages "example_os [Data [1, 2, 3]]" "''cmd''"
         "\<lparr>elems = [], capacity = 2\<rparr>" True "single_file ''a.dll'' small_dll" "''a.dll''"] a
  show ?thesis by blast
qed

section \<open>C8: what a diagnostic carries\<close>

text \<open>
  The error text of \<open>DLOpen\<close> is the system's message, after the prefix and the code.
\<close>

lemma DLOpen_error_text:
  assumes "LoadLibrary Path = (NULL, e)" "e \<noteq> 0" "fm e = Some Message" "Message \<noteq> []"
  shows "snd (DLOpen fm LoadLibrary Path (Some [])) = Some (rtrim (''LoadLibrary: returned '' @ decimal (unat e) @ '' '' @ Message))"
  using assms by (simp add: DLOpen_def GetLastErrorAsString_def GetErrorAsString_def)

text \<open>
  \<open>ReportError\<close> writes the same text whatever the system's messages are.
\<close>

lemma ReportError_ignores_messages: "ReportError fm Err Prefix = ReportError fm' Err Prefix'"
  by (simp add: ReportError_def)

text \<open>
  Claim C8 at error 2 with the prefix \<open>CreateFile\<close>, on a system whose message for it is
  "The system cannot find the file specified.": \<open>ReportError\<close> writes the number and a
  newline, and not the message that \<open>GetErrorAsString\<close> has just built for it.
\<close>

theorem ReportError_writes_number_only:
  "ReportError (\<lambda>e. if e = 2 then Some ''The system cannot find the file specified.'' else None)
      2 (Some ''CreateFile'') = [CHR ''2'', CHR 0x0A]
   \<and> GetErrorAsString (\<lambda>e. if e = 2 then Some ''The system cannot find the file specified.'' else None)
      2 [] (Some ''CreateFile'') = ''CreateFile: returned 2 The system cannot find the file specified.''"
  by code_simp

section \<open>C9: what IsDLL answers\<close>

text \<open>
  Claim C9, as the code has it. \<open>IsDLL\<close> returns false when the file cannot be opened, the
  mapping cannot be used or the view cannot be mapped (so for a path that does not exist and
  for an empty file), writing the last-error number when opening fails; it returns false
  when the first two bytes of the view are not the DOS magic number; and it returns a
  boolean whenever the headers that \<open>e_lfanew\<close> points to lie inside the view.
\<close>

theorem IsDLL_classifies:
  fixes fm os Path
  defines "R \<equiv> IsDLL fm os Path"
  shows "(mapped_view os Path = None \<longrightarrow> answer R = Returns False)
       \<and> (\<forall>view m. mapped_view os Path = Some view \<longrightarrow> read_field view 0 2 = Some m
              \<longrightarrow> m \<noteq> IMAGE_DOS_SIGNATURE \<longrightarrow> answer R = Returns False)
       \<and> (\<forall>view. mapped_view os Path = Some view \<longrightarrow> nt_header_in_view view
              \<longrightarrow> (\<exists>isDLL. answer R = Returns isDLL))
       \<and> (fst (CreateFileA os Path) = INVALID_HANDLE_VALUE
              \<longrightarrow> errs R = snd (ReportLastError fm (snd (CreateFileA os Path)) (Some ''CreateFile'')))
       \<and> (\<forall>name contents. Path \<noteq> name
              \<longrightarrow> answer (IsDLL fm (single_file name contents) Path) = Returns False)
       \<and> (\<forall>name. answer (IsDLL fm (single_file name []) Path) = Returns False)"
proof -
  have 1: "mapped_view os Path = None \<longrightarrow> answer R = Returns False"
    by (simp add: R_def IsDLL_answer)
  have 2: "\<forall>view m. mapped_view os Path = Some view \<longrightarrow> read_field view 0 2 = Some m
              \<longrightarrow> m \<noteq> IMAGE_DOS_SIGNATURE \<longrightarrow> answer R = Returns False"
    by (simp add: R_def IsDLL_answer inspect_bad_magic)
  have 3: "\<forall>view. mapped_view os Path = Some view \<longrightarrow> nt_header_in_view view
              \<longrightarrow> (\<exists>isDLL. answer R = Returns isDLL)"
    by (simp add: R_def IsDLL_answer inspect_in_view)
  have 4: "fst (CreateFileA os Path) = INVALID_HANDLE_VALUE
              \<longrightarrow> errs R = snd (ReportLastError fm (snd (CreateFileA os Path)) (Some ''CreateFile''))"
    by (simp add: R_def IsDLL_def split_beta)
  have 5: "\<forall>name contents. Path \<noteq> name
              \<longrightarrow> answer (IsDLL fm (single_file name contents) Path) = Returns False"
    by (simp add: IsDLL_answer mapped_view_single_file)
  have 6: "\<forall>name. answer (IsDLL fm (single_file name []) Path) = Returns False"
    by (simp add: IsDLL_answer mapped_view_single_file)
  show ?thesis using 1 2 3 4 5 6 by blast
qed

theorem IsDLL_classifies_witness:
  "answer (IsDLL no_messages (single_file ''a.dll'' small_dll) ''b.dll'') = Returns False
   \<and> errs (IsDLL no_messages (single_file ''a.dll'' small_dll) ''b.dll'') = [CHR ''2'', CHR 0x0A]
   \<and> answer (IsDLL no_messages (single_file ''a.dll'' []) ''a.dll'') = Returns False
   \<and> answer (IsDLL no_messages (single_file ''a.dll'' corrupted_dll) ''a.dll'') = Returns False
   \<and> (\<exists>isDLL. answer (IsDLL no_messages (single_file ''a.dll'' small_dll) ''a.dll'') = Returns isDLL)"
proof -
  have ne: "''b.dll'' \<noteq> ''a.dll''" by simp
  have inv: "fst (CreateFileA (single_file ''a.dll'' small_dll) ''b.dll'') = INVALID_HANDLE_VALUE"
    by (simp add: single_file_def)
  have written: "snd (ReportLastError no_messages (snd (CreateFileA (single_file ''a.dll'' small_dll) ''b.dll'')) (Some ''CreateFile''))
             = [CHR ''2'', CHR 0x0A]"
    by (simp add: single_file_def ReportLastError_def ReportError_def decimal_2)
  have cv: "mapped_view (single_file ''a.dll'' corrupted_dll) ''a.dll'' = Some (page_padded corrupted_dll)"
    by (simp add: mapped_view_single_file) (simp add: corrupted_dll_def)
  have cm: "(0x4D :: nat) \<noteq> IMAGE_DOS_SIGNATURE" by (simp add: IMAGE_DOS_SIGNATURE_def)
  have sv: "mapped_view (single_file ''a.dll'' small_dll) ''a.dll'' = Some (page_padded small_dll)"
    by (simp add: mapped_view_single_file) (simp add: small_dll_def)
  note T1 = IsDLL_classifies [where fm = no_messages and os = "single_file ''a.dll'' small_dll" and Path = "''b.dll''"]
  note T2 = IsDLL_classifies [where fm = no_messages and os = "single_file ''a.dll'' []" and Path = "''a.dll''"]
  note T3 = IsDLL_classifies [where fm = no_messages and os = "single_file ''a.dll'' corrupted_dll" and Path = "''a.dll''"]
  note T4 = IsDLL_classifies [where fm = no_messages and os = "single_file ''a.dll'' small_dll" and Path = "''a.dll''"]
  have A: "answer (IsDLL no_messages (single_file ''a.dll'' small_dll) ''b.dll'') = Returns False"
    by (rule T1 [THEN conjunct2, THEN conjunct2, THEN conjunct2, THEN conjunct2, THEN conjunct1, rule_format])
       (rule ne)
  have B: "errs (IsDLL no_messages (single_file ''a.dll'' small_dll) ''b.dll'') = [CHR ''2'', CHR 0x0A]"
    using T1 [THEN conjunct2, THEN conjunct2, THEN conjunct2, THEN conjunct1, rule_format, OF inv]
    by (simp only: written)
  have C: "answer (IsDLL no_messages (single_file ''a.dll'' []) ''a.dll'') = Returns False"
    by (rule T2 [THEN conjunct2, THEN conjunct2, THEN conjunct2, THEN conjunct2, THEN conjunct2, rule_format])
  have D: "answer (IsDLL no_messages (single_file ''a.dll'' corrupted_dll) ''a.dll'') = Returns False"
    by (rule T3 [THEN conjunct2, THEN conjunct1, rule_format, OF cv corrupted_magic cm])
  have E: "\<exists>isDLL. answer (IsDLL no_messages (single_file ''a.dll'' small_dll) ''a.dll'') = Returns isDLL"
    by (rule T4 [THEN conjunct2, THEN conjunct2, THEN conjunct1, rule_format, OF sv small_in_view])
  show ?thesis by (intro conjI A B C D E)
qed

text \<open>
  The claim as the specification words it, a boolean for every path, fails at a file of 64
  bytes that starts with \<open>MZ\<close> and whose \<open>e_lfanew\<close> is \<open>0x100000\<close>: the view is one page of 4096
  bytes, and \<open>pNTHeader->Signature\<close> is read a megabyte past its start. The code checks no
  offset against the size of the file.
\<close>

theorem IsDLL_reads_outside_view: "answer (IsDLL no_messages (single_file ''a.dll'' wild_header) ''a.dll'') = Reads_outside_view"
proof -
  have "wild_header \<noteq> []" by (simp add: wild_header_def)
  then have "mapped_view (single_file ''a.dll'' wild_header) ''a.dll'' = Some (page_padded wild_header)"
    by (simp add: mapped_view_single_file)
  moreover have "inspect_headers (page_padded wild_header) = Reads_outside_view"
    by (simp add: inspect_headers_def wild_magic wild_lfanew wild_signature)
  ultimately show ?thesis by (simp add: IsDLL_answer)
qed

section \<open>C10: the buffer's earlier contents\<close>

text \<open>
  Claim C10. Two calls that differ only in the elements the buffer held leave the same
  result in every respect. The capacity a previous call left behind is the chunk of the
  next: as long as it is not zero for \<open>ReadFile\<close>, the bytes and the boolean do not depend on
  it either.
\<close>

theorem Popen_ignores_prior_contents:
  "Popen fm os Cmd \<lparr>elems = xs, capacity = c\<rparr> RdE = Popen fm os Cmd \<lparr>elems = ys, capacity = c\<rparr> RdE
   \<and> (c mod 2 ^ 32 \<noteq> 0 \<longrightarrow> c' mod 2 ^ 32 \<noteq> 0 \<longrightarrow>
        elems (buffer (Popen fm os Cmd \<lparr>elems = xs, capacity = c\<rparr> RdE))
          = elems (buffer (Popen fm os Cmd \<lparr>elems = ys, capacity = c'\<rparr> RdE))
        \<and> returned (Popen fm os Cmd \<lparr>elems = xs, capacity = c\<rparr> RdE)
          = returned (Popen fm os Cmd \<lparr>elems = ys, capacity = c'\<rparr> RdE))"
proof -
  have "Popen fm os Cmd \<lparr>elems = xs, capacity = c\<rparr> RdE = Popen fm os Cmd \<lparr>elems = ys, capacity = c\<rparr> RdE"
    by (simp add: Popen_def resize_0)
  then show ?thesis by (simp add: Popen_returned Popen_buffer)
qed

theorem Popen_ignores_prior_contents_witness:
  "(4 :: nat) mod 2 ^ 32 \<noteq> 0 \<and> (19 :: nat) mod 2 ^ 32 \<noteq> 0
   \<and> Popen no_messages (example_os [Data [1, 2, 3]]) ''cmd'' \<lparr>elems = [9, 9], capacity = 4\<rparr> False
       = Popen no_messages (example_os [Data [1, 2, 3]]) ''cmd'' \<lparr>elems = [], capacity = 4\<rparr> False
   \<and> elems (buffer (Popen no_messages (example_os [Data [1, 2, 3]]) ''cmd'' \<lparr>elems = [9, 9], capacity = 4\<rparr> False))
       = elems (buffer (Popen no_messages (example_os [Data [1, 2, 3]]) ''cmd'' \<lparr>elems = [], capacity = 19\<rparr> False))
   \<and> returned (Popen no_messages (example_os [Data [1, 2, 3]]) ''cmd'' \<lparr>elems = [9, 9], capacity = 4\<rparr> False)
       = returned (Popen no_messages (example_os [Data [1, 2, 3]]) ''cmd'' \<lparr>elems = [], capacity = 19\<rparr> False)"
proof -
  have a: "(4 :: nat) mod 2 ^ 32 \<noteq> 0" and b: "(19 :: nat) mod 2 ^ 32 \<noteq> 0" by simp_all
  note T = Popen_ignores_prior_contents [where fm = no_messages and os = "example_os [Data [1, 2, 3]]"
      and Cmd = "''cmd''" and xs = "[9, 9]" and ys = "[]" and c = 4 and c' = 19 and RdE = False]
  show ?thesis
    using T [THEN conjunct1] T [THEN conjunct2, rule_format, OF a b] a b by (intro conjI) simp_all
qed

end
